theory Spec2Isabelle
  imports Complex_Main "HOL-Library.Sublist"
begin

section \<open>URL normalisation\<close>

text \<open>
  \<^verbatim>\<open>html_command\<close> (lines 53-55) and \<^verbatim>\<open>is_valid_url\<close> (line 618) both qualify a URL
  that carries no scheme:
  \<^verbatim>\<open>if not url.startswith(('http://', 'https://')): url = 'https://' + url\<close>.
  \<^verbatim>\<open>str.startswith\<close> with a tuple is true when one of the prefixes matches; the test is
  case sensitive.
\<close>

definition has_scheme :: "string \<Rightarrow> bool" where
  "has_scheme url = (prefix ''http://'' url \<or> prefix ''https://'' url)"

definition normalize_url :: "string \<Rightarrow> string" where
  "normalize_url url = (if \<not> has_scheme url then ''https://'' @ url else url)"

section \<open>Regular expressions of Python's \<^verbatim>\<open>re\<close>\<close>

text \<open>
  The source uses two patterns (\<^verbatim>\<open>is_valid_url\<close>, \<^verbatim>\<open>process_css_urls\<close>), both compiled
  with \<^verbatim>\<open>re.IGNORECASE\<close>. A pattern is a value of \<open>regex\<close>; \<open>rmatch\<close> is a backtracking
  matcher that returns, in the order in which Python tries them, every way of matching a
  prefix of the text: the head of the list is the match Python reports. A state is the
  text still to read and the text captured by group 1.

  A character is a code point below 256. \<^verbatim>\<open>\d\<close> on such a character is an ASCII digit,
  \<^verbatim>\<open>\s\<close> is one of the code points 9-13, 28-32, 133 and 160, and case folding only moves
  ASCII letters into a class of ASCII letters.
\<close>

datatype item = Lit char | Rng char char | Digits | Spaces

datatype cclass = Pos "item list" | Neg "item list"

text \<open>
  \<open>Rep lo hi r\<close> is the greedy repetition \<^verbatim>\<open>r{lo,hi}\<close> (\<open>hi = None\<close>: unbounded), so
  \<^verbatim>\<open>r*\<close>, \<^verbatim>\<open>r+\<close> and \<^verbatim>\<open>r?\<close> are \<open>Rep 0 None r\<close>, \<open>Rep 1 None r\<close> and \<open>Rep 0 (Some 1) r\<close>.
  \<open>Eol\<close> is \<^verbatim>\<open>$\<close>: the end of the text, or the position before a final newline.
  \<open>Group r\<close> is capture group 1.
\<close>

datatype regex =
    Atom cclass
  | Eps
  | Eol
  | Seq regex regex
  | Alt regex regex
  | Rep nat "nat option" regex
  | Group regex

definition is_space :: "char \<Rightarrow> bool" where
  "is_space c = ((of_char c :: nat) \<in> {9, 10, 11, 12, 13, 28, 29, 30, 31, 32, 133, 160})"

definition is_digit :: "char \<Rightarrow> bool" where
  "is_digit c = (48 \<le> (of_char c :: nat) \<and> (of_char c :: nat) \<le> 57)"

definition to_lower :: "char \<Rightarrow> char" where
  "to_lower c = (if 65 \<le> (of_char c :: nat) \<and> (of_char c :: nat) \<le> 90
                 then char_of ((of_char c :: nat) + 32) else c)"

definition to_upper :: "char \<Rightarrow> char" where
  "to_upper c = (if 97 \<le> (of_char c :: nat) \<and> (of_char c :: nat) \<le> 122
                 then char_of ((of_char c :: nat) - 32) else c)"

fun in_item :: "item \<Rightarrow> char \<Rightarrow> bool" where
  "in_item (Lit a) c = (c = a)"
| "in_item (Rng a b) c = ((of_char a :: nat) \<le> of_char c \<and> (of_char c :: nat) \<le> of_char b)"
| "in_item Digits c = is_digit c"
| "in_item Spaces c = is_space c"

definition hits :: "bool \<Rightarrow> item \<Rightarrow> char \<Rightarrow> bool" where
  "hits ic i c = (in_item i c \<or> (ic \<and> (in_item i (to_lower c) \<or> in_item i (to_upper c))))"

fun in_class :: "bool \<Rightarrow> cclass \<Rightarrow> char \<Rightarrow> bool" where
  "in_class ic (Pos its) c = list_ex (\<lambda>i. hits ic i c) its"
| "in_class ic (Neg its) c = (\<not> list_ex (\<lambda>i. hits ic i c) its)"

type_synonym mstate = "string \<times> string option"

text \<open>
  One more round of the body is tried before stopping (greedy). The fuel is the length
  of the text still to read: a round has to consume a character, which every repeated
  body of the two patterns does.
\<close>

fun rep_iter :: "(mstate \<Rightarrow> mstate list) \<Rightarrow> nat \<Rightarrow> nat option \<Rightarrow> nat \<Rightarrow> mstate \<Rightarrow> mstate list" where
  "rep_iter f lo hi 0 st = (if lo = 0 then [st] else [])"
| "rep_iter f lo hi (Suc fuel) st =
     (if hi = Some 0 then []
      else concat (map (rep_iter f (lo - 1) (map_option (\<lambda>h. h - 1) hi) fuel)
                       (filter (\<lambda>st'. length (fst st') < length (fst st)) (f st))))
     @ (if lo = 0 then [st] else [])"

fun rmatch :: "bool \<Rightarrow> regex \<Rightarrow> mstate \<Rightarrow> mstate list" where
  "rmatch ic (Atom cls) st =
     (case fst st of [] \<Rightarrow> [] | c # cs \<Rightarrow> if in_class ic cls c then [(cs, snd st)] else [])"
| "rmatch ic Eps st = [st]"
| "rmatch ic Eol st = (if fst st = [] \<or> fst st = [CHR 0x0A] then [st] else [])"
| "rmatch ic (Seq r1 r2) st = concat (map (rmatch ic r2) (rmatch ic r1 st))"
| "rmatch ic (Alt r1 r2) st = rmatch ic r1 st @ rmatch ic r2 st"
| "rmatch ic (Rep lo hi r) st = rep_iter (rmatch ic r) lo hi (length (fst st)) st"
| "rmatch ic (Group r) st =
     map (\<lambda>st'. (fst st', Some (take (length (fst st) - length (fst st')) (fst st))))
         (rmatch ic r st)"

definition lit :: "string \<Rightarrow> regex" where
  "lit s = foldr (\<lambda>c r. Seq (Atom (Pos [Lit c])) r) s Eps"

definition seqs :: "regex list \<Rightarrow> regex" where
  "seqs rs = foldr Seq rs Eps"

definition opt :: "regex \<Rightarrow> regex" where
  "opt r = Rep 0 (Some 1) r"

section \<open>URL validation\<close>

text \<open>
  \<^verbatim>\<open>is_valid_url\<close> (lines 613-627). The pattern, piece by piece:
  \<^verbatim>\<open>^https?://\<close>,
  \<^verbatim>\<open>(?:(?:[A-Z0-9](?:[A-Z0-9-]{0,61}[A-Z0-9])?\.)+[A-Z]{2,6}\.?|localhost|\d{1,3}\.\d{1,3}\.\d{1,3}\.\d{1,3})\<close>,
  \<^verbatim>\<open>(?::\d+)?\<close>, \<^verbatim>\<open>(?:/?|[/?]\S+)$\<close>.
  \<^verbatim>\<open>pattern.match\<close> anchors at the start of the text. The function returns the match
  object or \<^verbatim>\<open>None\<close>; the model returns its truth value.
\<close>

definition url_regex :: regex where
  "url_regex = seqs [
     lit ''http'', opt (lit ''s''), lit ''://'',
     Alt (seqs [
            Rep 1 None (seqs [
              Atom (Pos [Rng CHR ''A'' CHR ''Z'', Rng CHR ''0'' CHR ''9'']),
              opt (seqs [
                Rep 0 (Some 61) (Atom (Pos [Rng CHR ''A'' CHR ''Z'', Rng CHR ''0'' CHR ''9'', Lit CHR ''-''])),
                Atom (Pos [Rng CHR ''A'' CHR ''Z'', Rng CHR ''0'' CHR ''9''])]),
              lit ''.'']),
            Rep 2 (Some 6) (Atom (Pos [Rng CHR ''A'' CHR ''Z''])),
            opt (lit ''.'')])
       (Alt (lit ''localhost'')
            (seqs [Rep 1 (Some 3) (Atom (Pos [Digits])), lit ''.'',
                   Rep 1 (Some 3) (Atom (Pos [Digits])), lit ''.'',
                   Rep 1 (Some 3) (Atom (Pos [Digits])), lit ''.'',
                   Rep 1 (Some 3) (Atom (Pos [Digits]))])),
     opt (seqs [lit '':'', Rep 1 None (Atom (Pos [Digits]))]),
     Alt (opt (lit ''/''))
         (seqs [Atom (Pos [Lit CHR ''/'', Lit CHR ''?'']), Rep 1 None (Atom (Neg [Spaces]))]),
     Eol]"

definition is_valid_url :: "string \<Rightarrow> bool" where
  "is_valid_url url =
     (let test_url = (if has_scheme url then url else ''https://'' @ url)
      in rmatch True url_regex (test_url, None) \<noteq> [])"

section \<open>Faults and the document tree\<close>

text \<open>
  Every fault the source can meet is a Python \<^verbatim>\<open>Exception\<close>; all handlers of the source
  are \<^verbatim>\<open>except Exception\<close>, so only the fact that one was raised matters. An operation
  that may raise returns \<open>exn + 'a\<close>.
\<close>

datatype exn = Exception string

text \<open>
  The tree BeautifulSoup builds: a tag with its name, its attributes in document order
  (the raw attribute text) and its children, a text string, or a comment (which
  \<^verbatim>\<open>get_text\<close> leaves out). A document is the list of its top-level nodes. The parser
  itself is a library; the functions below take it as a parameter \<open>parse\<close>.
\<close>

datatype node =
    Tag string "(string \<times> string) list" "node list"
  | Text string
  | Comment string

text \<open>\<^verbatim>\<open>' '.join(text.split())\<close>: split at runs of whitespace, join with one space.\<close>

fun split_ws :: "string \<Rightarrow> string \<Rightarrow> string list" where
  "split_ws acc [] = (if acc = [] then [] else [rev acc])"
| "split_ws acc (c # cs) =
     (if is_space c then (if acc = [] then split_ws [] cs else rev acc # split_ws [] cs)
      else split_ws (c # acc) cs)"

definition py_split :: "string \<Rightarrow> string list" where
  "py_split s = split_ws [] s"

fun join_sp :: "string list \<Rightarrow> string" where
  "join_sp [] = []"
| "join_sp [w] = w"
| "join_sp (w # ws) = w @ '' '' @ join_sp ws"

fun get_text :: "node \<Rightarrow> string" where
  "get_text (Tag n as cs) = concat (map get_text cs)"
| "get_text (Text s) = s"
| "get_text (Comment s) = []"

text \<open>All nodes of a subtree in document order, the order of \<^verbatim>\<open>find_all\<close>.\<close>

fun nodes_of :: "node \<Rightarrow> node list" where
  "nodes_of (Tag n as cs) = Tag n as cs # concat (map nodes_of cs)"
| "nodes_of (Text s) = [Text s]"
| "nodes_of (Comment s) = [Comment s]"

fun is_tag :: "string list \<Rightarrow> node \<Rightarrow> bool" where
  "is_tag names (Tag n as cs) = (n \<in> set names)"
| "is_tag names (Text s) = False"
| "is_tag names (Comment s) = False"

definition find_all :: "string list \<Rightarrow> node list \<Rightarrow> node list" where
  "find_all names soup = filter (is_tag names) (concat (map nodes_of soup))"

definition find_first :: "string \<Rightarrow> node list \<Rightarrow> node option" where
  "find_first name soup = (case find_all [name] soup of [] \<Rightarrow> None | t # _ \<Rightarrow> Some t)"

text \<open>
  \<^verbatim>\<open>for script in soup(["script", "style", "noscript"]): script.decompose()\<close>
  removes every tag with one of the names, with its subtree.
\<close>

fun decompose :: "string list \<Rightarrow> node \<Rightarrow> node list" where
  "decompose names (Tag n as cs) =
     (if n \<in> set names then [] else [Tag n as (concat (map (decompose names) cs))])"
| "decompose names (Text s) = [Text s]"
| "decompose names (Comment s) = [Comment s]"

section \<open>The emptiness heuristic\<close>

text \<open>
  \<^verbatim>\<open>is_likely_empty_page\<close> (lines 141-178). \<open>is_likely_empty_soup\<close> is the body of the
  function from the parsed document on. The scripts are counted on the tree from which
  the script tags have been removed, as in the source (line 172 after lines 151-152).
\<close>

definition is_likely_empty_soup :: "node list \<Rightarrow> bool" where
  "is_likely_empty_soup parsed =
     (let soup = concat (map (decompose [''script'', ''style'', ''noscript'']) parsed);
          text = join_sp (py_split (concat (map get_text soup)));
          scripts = find_all [''script''] soup;
          many_scripts = (length scripts > 5 \<and> length text < 200)
      in if length text < 100 then True
         else (case find_first ''body'' soup of
                 Some body \<Rightarrow>
                   if length (join_sp (py_split (get_text body))) < 50 then True
                   else many_scripts
               | None \<Rightarrow> many_scripts))"

definition is_likely_empty_page :: "(string \<Rightarrow> exn + node list) \<Rightarrow> string \<Rightarrow> exn + bool" where
  "is_likely_empty_page parse html_content =
     (if html_content = [] then Inr True
      else case parse html_content of
             Inl e \<Rightarrow> Inl e
           | Inr parsed \<Rightarrow> Inr (is_likely_empty_soup parsed))"

text \<open>
  A page of a single-page application: six script elements in the head and 150
  characters of visible text in the body, as text and as the tree the parser builds
  from it.
\<close>

definition spa_html :: string where
  "spa_html = ''<html><head>'' @ concat (replicate 6 ''<script>app()</script>'')
              @ ''</head><body><div>'' @ replicate 150 CHR ''a'' @ ''</div></body></html>''"

definition spa_soup :: "node list" where
  "spa_soup =
     [Tag ''html'' []
        [Tag ''head'' [] (replicate 6 (Tag ''script'' [] [Text ''app()''])),
         Tag ''body'' [] [Tag ''div'' [] [Text (replicate 150 CHR ''a'')]]]]"

section \<open>Adopting the browser's rendering\<close>

text \<open>
  \<^verbatim>\<open>html_command\<close>, lines 66-75. \<^verbatim>\<open>fetch_html_with_browser\<close> drives an external browser
  and returns the rendered text or \<^verbatim>\<open>None\<close>; it is the parameter \<open>browser\<close>. An empty
  text is false in Python, as \<^verbatim>\<open>None\<close> is. The product \<^verbatim>\<open>len(html_content) * 1.5\<close> is a
  float, exact for every length below \<open>2 ^ 52\<close>.
\<close>

definition adopt_browser_html :: "string \<Rightarrow> string option \<Rightarrow> string" where
  "adopt_browser_html html_content browser_html =
     (case browser_html of
        None \<Rightarrow> html_content
      | Some b \<Rightarrow>
          if b \<noteq> [] \<and> real (length b) > real (length html_content) * 1.5 then b
          else if b \<noteq> [] then b
          else html_content)"

definition render_step ::
  "(string \<Rightarrow> exn + node list) \<Rightarrow> (string \<Rightarrow> string option) \<Rightarrow> string \<Rightarrow> string \<Rightarrow> exn + string" where
  "render_step parse browser url html_content =
     (case is_likely_empty_page parse html_content of
        Inl e \<Rightarrow> Inl e
      | Inr fires \<Rightarrow>
          if fires then Inr (adopt_browser_html html_content (browser url))
          else Inr html_content)"

section \<open>The retention sweep\<close>

























section \<open>The network and the libraries\<close>

text \<open>
  A response of \<^verbatim>\<open>session.get\<close>: the status, the \<^verbatim>\<open>Content-Type\<close> header when there is
  one, and what \<^verbatim>\<open>response.read()\<close> and \<^verbatim>\<open>response.text()\<close> give (either may raise).
  Bytes are characters.
\<close>

record response =
  status :: int
  content_type :: "string option"
  resp_read :: "exn + string"
  resp_text :: "exn + string"

text \<open>
  What the inliner takes from outside: the HTTP client (\<open>http_get\<close> raises on a timeout
  or a connection error), \<^verbatim>\<open>urllib.parse.urljoin\<close> (which raises \<^verbatim>\<open>ValueError\<close> on some
  malformed references), \<^verbatim>\<open>base64.b64encode\<close>, the parser and \<^verbatim>\<open>str(soup)\<close>, whether
  \<^verbatim>\<open>os.makedirs\<close> and the writing of a file raise, and the extension of a URL's path
  (\<^verbatim>\<open>os.path.splitext(urllib.parse.urlparse(img_url).path)[1]\<close>). A fetch of a URL
  gives the same response each time.
\<close>

record env =
  http_get :: "string \<Rightarrow> exn + response"
  urljoin :: "string \<Rightarrow> string \<Rightarrow> exn + string"
  b64encode :: "string \<Rightarrow> string"
  html_parser :: "string \<Rightarrow> exn + node list"
  serialize :: "node list \<Rightarrow> exn + string"
  makedirs_fails :: "string \<Rightarrow> bool"
  write_fails :: "string \<Rightarrow> bool"
  url_ext :: "string \<Rightarrow> exn + string"

section \<open>Rewriting the URLs of a stylesheet\<close>

text \<open>
  A match object: \<^verbatim>\<open>start()\<close>, \<^verbatim>\<open>end()\<close>, \<^verbatim>\<open>group(0)\<close>, \<^verbatim>\<open>group(1)\<close>.
\<close>

record re_match =
  m_start :: nat
  m_end :: nat
  group0 :: string
  group1 :: "string option"

text \<open>
  \<^verbatim>\<open>pattern.finditer\<close>: the leftmost match from the current position, then on from its
  end. \<open>pos\<close> is the offset of \<open>s\<close> in the whole text. (After an empty match the search
  moves one character on; the pattern used here matches no empty text.)
\<close>

function finditer :: "bool \<Rightarrow> regex \<Rightarrow> nat \<Rightarrow> string \<Rightarrow> re_match list" where
  "finditer ic r pos s =
     (case rmatch ic r (s, None) of
        [] \<Rightarrow> (case s of [] \<Rightarrow> [] | c # cs \<Rightarrow> finditer ic r (Suc pos) cs)
      | st # _ \<Rightarrow>
          (let n = length s - length (fst st);
               m = \<lparr>m_start = pos, m_end = pos + n, group0 = take n s, group1 = snd st\<rparr>
           in if n = 0 then m # (case s of [] \<Rightarrow> [] | c # cs \<Rightarrow> finditer ic r (Suc pos) cs)
              else m # finditer ic r (pos + n) (drop n s)))"
  by pat_completeness auto
termination
  by (relation "measure (\<lambda>(ic, r, pos, s). length s)") auto

declare finditer.simps [simp del]

text \<open>
  The pattern of line 448:
  \<^verbatim>\<open>url\s*\(\s*["\']?([^"\'()]+)["\']?\s*\)\<close>, with \<^verbatim>\<open>re.IGNORECASE\<close>.
\<close>

definition css_url_regex :: regex where
  "css_url_regex = seqs [
     lit ''url'',
     Rep 0 None (Atom (Pos [Spaces])),
     lit ''('',
     Rep 0 None (Atom (Pos [Spaces])),
     opt (Atom (Pos [Lit (CHR 0x22), Lit (CHR 0x27)])),
     Group (Rep 1 None (Atom (Neg [Lit (CHR 0x22), Lit (CHR 0x27), Lit CHR ''('', Lit CHR '')'']))),
     opt (Atom (Pos [Lit (CHR 0x22), Lit (CHR 0x27)])),
     Rep 0 None (Atom (Pos [Spaces])),
     lit '')'']"

text \<open>
  \<^verbatim>\<open>replace_url\<close> (lines 450-477). \<open>None\<close> is Python's \<^verbatim>\<open>None\<close>: with a status other
  than 200 the function ends without a \<^verbatim>\<open>return\<close>.
\<close>

definition replace_url :: "env \<Rightarrow> string \<Rightarrow> re_match \<Rightarrow> string option" where
  "replace_url env css_url m =
     (case group1 m of
        None \<Rightarrow> Some (group0 m)
      | Some url \<Rightarrow>
          if url = [] then Some (group0 m)
          else if prefix ''data:'' url \<or> prefix ''http://'' url \<or> prefix ''https://'' url
          then Some (group0 m)
          else
            (case urljoin env css_url url of
               Inl e \<Rightarrow> Some (group0 m)
             | Inr full_url \<Rightarrow>
                 (case http_get env full_url of
                    Inl e \<Rightarrow> Some (group0 m)
                  | Inr response \<Rightarrow>
                      if status response = 200 then
                        (case resp_read response of
                           Inl e \<Rightarrow> Some (group0 m)
                         | Inr content \<Rightarrow>
                             (let ctype = (case content_type response of
                                             None \<Rightarrow> ''application/octet-stream''
                                           | Some ct \<Rightarrow> ct);
                                  content_base64 = b64encode env content
                              in Some (''url(data:'' @ ctype @ '';base64,'' @ content_base64 @ '')'')))
                      else None)))"

text \<open>The slice \<^verbatim>\<open>s[a:b]\<close>.\<close>

definition slice :: "string \<Rightarrow> nat \<Rightarrow> nat \<Rightarrow> string" where
  "slice s a b = take (b - a) (drop a s)"

text \<open>The loop of lines 492-498: the pieces that \<^verbatim>\<open>''.join\<close> puts together.\<close>

fun rebuild :: "string \<Rightarrow> nat \<Rightarrow> (re_match \<times> string) list \<Rightarrow> string list" where
  "rebuild css_content last_pos [] = [drop last_pos css_content]"
| "rebuild css_content last_pos ((m, replacement) # rest) =
     slice css_content last_pos (m_start m) # replacement # rebuild css_content (m_end m) rest"

text \<open>
  \<^verbatim>\<open>process_css_urls\<close> (lines 441-503). \<^verbatim>\<open>asyncio.gather\<close> returns the results in the
  order of the matches; \<open>replace_url\<close> raises nothing, so the handler of lines 501-503
  is never entered. Line 489 puts \<^verbatim>\<open>group(0)\<close> where \<^verbatim>\<open>replace_url\<close> returned \<^verbatim>\<open>None\<close>.
\<close>

definition process_css_urls :: "env \<Rightarrow> string \<Rightarrow> string \<Rightarrow> string" where
  "process_css_urls env css_content css_url =
     (let matches = finditer True css_url_regex 0 css_content
      in if matches = [] then css_content
         else
           (let gathered = map (replace_url env css_url) matches;
                replacements = map (\<lambda>(r, m). case r of Some t \<Rightarrow> t | None \<Rightarrow> group0 m)
                                   (zip gathered matches)
            in concat (rebuild css_content 0 (zip matches replacements))))"

text \<open>
  For the statements: a fetch fails when the request raises, the status is not 200 or
  reading the body raises; a reference is skipped when it is a \<^verbatim>\<open>data:\<close> or absolute
  \<^verbatim>\<open>http(s)\<close> URL; \<open>data_url\<close> is the text put in the place of a fetched reference.
\<close>

definition fetch_fails :: "env \<Rightarrow> string \<Rightarrow> bool" where
  "fetch_fails env url =
     (case http_get env url of
        Inl e \<Rightarrow> True
      | Inr response \<Rightarrow> status response \<noteq> 200 \<or> isl (resp_read response))"

definition css_skipped :: "string \<Rightarrow> bool" where
  "css_skipped url = (prefix ''data:'' url \<or> prefix ''http://'' url \<or> prefix ''https://'' url)"

definition data_url :: "env \<Rightarrow> response \<Rightarrow> string \<Rightarrow> string" where
  "data_url env response content =
     ''url(data:''
     @ (case content_type response of None \<Rightarrow> ''application/octet-stream'' | Some ct \<Rightarrow> ct)
     @ '';base64,'' @ b64encode env content @ '')''"

text \<open>A stylesheet with two relative references, and a network where only the first
  can be fetched.\<close>

definition css1 :: string where
  "css1 = ''a{background:url(x.png)} b{src:url(f.woff)}''"

definition env1 :: env where
  "env1 = \<lparr>http_get = (\<lambda>u. if u = ''https://h/x.png''
                              then Inr \<lparr>status = 200, content_type = Some ''image/png'',
                                        resp_read = Inr ''PNG'', resp_text = Inl (Exception ''binary'')\<rparr>
                              else Inl (Exception ''timeout'')),
            urljoin = (\<lambda>b u. Inr (''https://h/'' @ u)),
            b64encode = (\<lambda>bs. ''UE5H''),
            html_parser = (\<lambda>h. Inr []),
            serialize = (\<lambda>t. Inr []),
            makedirs_fails = (\<lambda>p. False),
            write_fails = (\<lambda>p. False),
            url_ext = (\<lambda>u. Inr [])\<rparr>"

section \<open>The document inliner\<close>

text \<open>
  \<^verbatim>\<open>download_resources_and_update_html\<close> (lines 282-439). Attributes are the tag's
  \<^verbatim>\<open>attrs\<close> dictionary, in insertion order. \<^verbatim>\<open>tag.get(k)\<close> is \<open>attr_get\<close>, the assignment
  \<^verbatim>\<open>tag[k] = v\<close> is \<open>attr_set\<close> (an existing key keeps its place, a new one goes last).
\<close>

type_synonym attrs = "(string \<times> string) list"

definition attr_get :: "attrs \<Rightarrow> string \<Rightarrow> string option" where
  "attr_get as k = map_of as k"

fun attr_set :: "string \<Rightarrow> string \<Rightarrow> attrs \<Rightarrow> attrs" where
  "attr_set k v [] = [(k, v)]"
| "attr_set k v (p # rest) = (if fst p = k then (k, v) # rest else p # attr_set k v rest)"

text \<open>
  Python's \<^verbatim>\<open>a or b\<close> on values that are \<^verbatim>\<open>None\<close> or a string: the first operand when
  it is a non-empty string, the second otherwise.
\<close>

definition py_or :: "string option \<Rightarrow> string option \<Rightarrow> string option" where
  "py_or a b = (case a of None \<Rightarrow> b | Some v \<Rightarrow> if v = [] then b else a)"

text \<open>\<^verbatim>\<open>sub in s\<close> on strings, \<^verbatim>\<open>str(n)\<close> for a natural number, and \<^verbatim>\<open>os.path.join\<close>
  of two components (POSIX).\<close>

fun contains :: "string \<Rightarrow> string \<Rightarrow> bool" where
  "contains sub [] = (sub = [])"
| "contains sub (c # cs) = (prefix sub (c # cs) \<or> contains sub cs)"

fun str_nat :: "nat \<Rightarrow> string" where
  "str_nat n = (if n < 10 then [''0123456789'' ! n]
                else str_nat (n div 10) @ [''0123456789'' ! (n mod 10)])"

declare str_nat.simps [simp del]

definition path_join :: "string \<Rightarrow> string \<Rightarrow> string" where
  "path_join a b =
     (if prefix ''/'' b then b
      else if a = [] \<or> suffix ''/'' a then a @ b
      else a @ ''/'' @ b)"

text \<open>
  The files written so far: a map from paths to contents. \<^verbatim>\<open>open(img_path, 'wb')\<close> with
  \<^verbatim>\<open>f.write(content)\<close> stores the content or raises and stores nothing.
\<close>

type_synonym files = "string \<rightharpoonup> string"

definition write_file :: "env \<Rightarrow> string \<Rightarrow> string \<Rightarrow> files \<Rightarrow> exn + files" where
  "write_file env path content fs =
     (if write_fails env path then Inl (Exception ''open'') else Inr (fs(path \<mapsto> content)))"

text \<open>Lines 318-339: the extension and MIME type of a fetched image.\<close>

definition image_type :: "env \<Rightarrow> string \<Rightarrow> string \<Rightarrow> exn + string \<times> string" where
  "image_type env ctype img_url =
     (if contains ''png'' ctype then Inr (''.png'', ''image/png'')
      else if contains ''gif'' ctype then Inr (''.gif'', ''image/gif'')
      else if contains ''webp'' ctype then Inr (''.webp'', ''image/webp'')
      else
        (case url_ext env img_url of
           Inl e \<Rightarrow> Inl e
         | Inr path_ext \<Rightarrow>
             if path_ext \<noteq> [] then
               (let ext = path_ext
                in if map to_lower ext = ''.png'' then Inr (ext, ''image/png'')
                   else if map to_lower ext = ''.gif'' then Inr (ext, ''image/gif'')
                   else if map to_lower ext = ''.webp'' then Inr (ext, ''image/webp'')
                   else Inr (ext, ''image/jpeg''))
             else Inr (''.jpg'', ''image/jpeg'')))"

text \<open>
  The inner \<^verbatim>\<open>try\<close> block of the image loop (lines 312-353), without the assignment to
  the tag: on status 200 it gives the data URI, the path of the written file and the
  files after the write; on another status it gives \<open>None\<close>; any fault is \<open>Inl\<close>.
\<close>

definition fetch_image ::
  "env \<Rightarrow> string \<Rightarrow> nat \<Rightarrow> string \<Rightarrow> files \<Rightarrow> exn + (string \<times> string \<times> files) option" where
  "fetch_image env images_dir idx img_url fs =
     (case http_get env img_url of
        Inl e \<Rightarrow> Inl e
      | Inr response \<Rightarrow>
          if status response = 200 then
            (case resp_read response of
               Inl e \<Rightarrow> Inl e
             | Inr content \<Rightarrow>
                 (let ctype = (case content_type response of None \<Rightarrow> ''image/jpeg'' | Some ct \<Rightarrow> ct)
                  in case image_type env ctype img_url of
                       Inl e \<Rightarrow> Inl e
                     | Inr (ext, mime_type) \<Rightarrow>
                         (let img_filename = ''img_'' @ str_nat idx @ ext;
                              img_path = path_join images_dir img_filename
                          in case write_file env img_path content fs of
                               Inl e \<Rightarrow> Inl e
                             | Inr fs' \<Rightarrow>
                                 (let img_base64 = b64encode env content;
                                      data_uri = ''data:'' @ mime_type @ '';base64,'' @ img_base64
                                  in Inr (Some (data_uri, img_path, fs'))))))
          else Inr None)"

text \<open>
  The state of the image loop: the index that \<^verbatim>\<open>enumerate\<close> gives the next image tag, the
  files, and \<^verbatim>\<open>downloaded_images\<close>.
\<close>

record img_state =
  next_idx :: nat
  disk :: files
  downloaded_images :: "(string \<times> string) list"

text \<open>
  The body of the image loop (lines 304-356) on the attributes of one \<^verbatim>\<open>img\<close> tag. The
  handler of lines 354-356 leaves the tag as it is. \<^verbatim>\<open>urljoin\<close> stands outside the inner
  \<^verbatim>\<open>try\<close>: when it raises, the fault leaves the loop, with the files as they are then.
\<close>

definition process_img ::
  "env \<Rightarrow> string \<Rightarrow> string \<Rightarrow> attrs \<Rightarrow> img_state \<Rightarrow> exn \<times> files + attrs \<times> img_state" where
  "process_img env base_url images_dir as st =
     (let idx = next_idx st; st0 = st\<lparr>next_idx := Suc idx\<rparr>
      in case py_or (attr_get as ''src'')
                (py_or (attr_get as ''data-src'') (attr_get as ''data-lazy-src'')) of
           None \<Rightarrow> Inr (as, st0)
         | Some raw \<Rightarrow>
             if raw = [] then Inr (as, st0)
             else
               (case urljoin env base_url raw of
                  Inl e \<Rightarrow> Inl (e, disk st)
                | Inr img_url \<Rightarrow>
                    (case fetch_image env images_dir idx img_url (disk st) of
                       Inl e \<Rightarrow> Inr (as, st0)
                     | Inr None \<Rightarrow> Inr (as, st0)
                     | Inr (Some (data_uri, img_path, fs')) \<Rightarrow>
                         Inr (attr_set ''src'' data_uri as,
                              st0\<lparr>disk := fs',
                                  downloaded_images := downloaded_images st @ [(img_path, img_url)]\<rparr>))))"

text \<open>
  The body of the stylesheet loop (lines 361-399): the text of the \<^verbatim>\<open>style\<close> tag that
  replaces the link, or \<open>None\<close> when the link stays. \<open>process_css_urls\<close> raises nothing,
  so the handler of lines 385-387 is never entered.
\<close>

definition inline_link :: "env \<Rightarrow> string \<Rightarrow> attrs \<Rightarrow> exn + string option" where
  "inline_link env base_url as =
     (case attr_get as ''href'' of
        None \<Rightarrow> Inr None
      | Some href \<Rightarrow>
          if href = [] then Inr None
          else
            (case urljoin env base_url href of
               Inl e \<Rightarrow> Inl e
             | Inr css_url \<Rightarrow>
                 (case http_get env css_url of
                    Inl e \<Rightarrow> Inr None
                  | Inr response \<Rightarrow>
                      if status response = 200 then
                        (case resp_text response of
                           Inl e \<Rightarrow> Inr None
                         | Inr css_content \<Rightarrow>
                             if css_content = [] then Inr None
                             else
                               (let css_content' = process_css_urls env css_content css_url
                                in if css_content' \<noteq> [] then Inr (Some css_content')
                                   else Inr None))
                      else Inr None)))"

text \<open>
  The body of the script loop (lines 404-432): the new \<^verbatim>\<open>script\<close> tag, with the attributes
  of the old one but \<^verbatim>\<open>src\<close>, or \<open>None\<close> when the tag stays.
\<close>

definition inline_script :: "env \<Rightarrow> string \<Rightarrow> attrs \<Rightarrow> exn + node option" where
  "inline_script env base_url as =
     (case attr_get as ''src'' of
        None \<Rightarrow> Inr None
      | Some src \<Rightarrow>
          if src = [] then Inr None
          else if prefix ''data:'' src \<or> prefix ''javascript:'' src then Inr None
          else
            (case urljoin env base_url src of
               Inl e \<Rightarrow> Inl e
             | Inr js_url \<Rightarrow>
                 (case http_get env js_url of
                    Inl e \<Rightarrow> Inr None
                  | Inr response \<Rightarrow>
                      if status response = 200 then
                        (case resp_text response of
                           Inl e \<Rightarrow> Inr None
                         | Inr js_content \<Rightarrow>
                             Inr (Some (Tag ''script'' (filter (\<lambda>p. fst p \<noteq> ''src'') as)
                                            [Text js_content])))
                      else Inr None)))"

text \<open>
  Each of the three loops runs over the tags \<^verbatim>\<open>find_all\<close> has returned, in document
  order, and changes the tree in place: it sets the attributes of the tag or replaces
  the tag (\<^verbatim>\<open>replace_with\<close>). \<open>walk_forest step\<close> is such a loop on the tree: \<open>step\<close> is
  the loop body, called on every tag in document order with the loop's state. A tag
  that is replaced is detached with its subtree; the tags below it are still in the list
  and the loop body still runs on them, without effect on the document.
\<close>

datatype action = Keep attrs | Replace node

fun walk_node :: "(string \<Rightarrow> attrs \<Rightarrow> 's \<Rightarrow> 'e + action \<times> 's) \<Rightarrow> node \<Rightarrow> 's \<Rightarrow> 'e + node \<times> 's"
  and walk_forest :: "(string \<Rightarrow> attrs \<Rightarrow> 's \<Rightarrow> 'e + action \<times> 's) \<Rightarrow> node list \<Rightarrow> 's \<Rightarrow> 'e + node list \<times> 's"
where
  "walk_node step (Tag n as cs) st =
     (case step n as st of
        Inl e \<Rightarrow> Inl e
      | Inr (act, st1) \<Rightarrow>
          (case walk_forest step cs st1 of
             Inl e \<Rightarrow> Inl e
           | Inr (cs', st2) \<Rightarrow>
               (case act of
                  Keep as' \<Rightarrow> Inr (Tag n as' cs', st2)
                | Replace new \<Rightarrow> Inr (new, st2))))"
| "walk_node step (Text t) st = Inr (Text t, st)"
| "walk_node step (Comment t) st = Inr (Comment t, st)"
| "walk_forest step [] st = Inr ([], st)"
| "walk_forest step (t # ts) st =
     (case walk_node step t st of
        Inl e \<Rightarrow> Inl e
      | Inr (t', st1) \<Rightarrow>
          (case walk_forest step ts st1 of
             Inl e \<Rightarrow> Inl e
           | Inr (ts', st2) \<Rightarrow> Inr (t' # ts', st2)))"

text \<open>
  The three loop bodies with the tests of their \<^verbatim>\<open>find_all\<close>: \<^verbatim>\<open>find_all('img')\<close>,
  \<^verbatim>\<open>find_all('link', rel='stylesheet')\<close> (one of the blank-separated values of \<^verbatim>\<open>rel\<close>
  is \<^verbatim>\<open>stylesheet\<close>) and \<^verbatim>\<open>find_all('script', src=True)\<close>.
\<close>

definition img_step ::
  "env \<Rightarrow> string \<Rightarrow> string \<Rightarrow> string \<Rightarrow> attrs \<Rightarrow> img_state \<Rightarrow> exn \<times> files + action \<times> img_state" where
  "img_step env base_url images_dir n as st =
     (if n = ''img'' then
        (case process_img env base_url images_dir as st of
           Inl e \<Rightarrow> Inl e
         | Inr (as', st') \<Rightarrow> Inr (Keep as', st'))
      else Inr (Keep as, st))"

definition rel_stylesheet :: "attrs \<Rightarrow> bool" where
  "rel_stylesheet as =
     (case attr_get as ''rel'' of None \<Rightarrow> False | Some v \<Rightarrow> ''stylesheet'' \<in> set (py_split v))"

definition link_step :: "env \<Rightarrow> string \<Rightarrow> string \<Rightarrow> attrs \<Rightarrow> unit \<Rightarrow> exn + action \<times> unit" where
  "link_step env base_url n as st =
     (if n = ''link'' \<and> rel_stylesheet as then
        (case inline_link env base_url as of
           Inl e \<Rightarrow> Inl e
         | Inr None \<Rightarrow> Inr (Keep as, st)
         | Inr (Some css_content) \<Rightarrow> Inr (Replace (Tag ''style'' [] [Text css_content]), st))
      else Inr (Keep as, st))"

definition script_step :: "env \<Rightarrow> string \<Rightarrow> string \<Rightarrow> attrs \<Rightarrow> unit \<Rightarrow> exn + action \<times> unit" where
  "script_step env base_url n as st =
     (if n = ''script'' \<and> attr_get as ''src'' \<noteq> None then
        (case inline_script env base_url as of
           Inl e \<Rightarrow> Inl e
         | Inr None \<Rightarrow> Inr (Keep as, st)
         | Inr (Some new_script) \<Rightarrow> Inr (Replace new_script, st))
      else Inr (Keep as, st))"

text \<open>The three passes on the parsed document (lines 300-432).\<close>

definition inline_soup ::
  "env \<Rightarrow> string \<Rightarrow> string \<Rightarrow> node list \<Rightarrow> files
   \<Rightarrow> exn \<times> files + node list \<times> (string \<times> string) list \<times> files" where
  "inline_soup env base_url images_dir soup fs =
     (case walk_forest (img_step env base_url images_dir) soup
             \<lparr>next_idx = 0, disk = fs, downloaded_images = []\<rparr> of
        Inl e \<Rightarrow> Inl e
      | Inr (soup1, st) \<Rightarrow>
          (case walk_forest (link_step env base_url) soup1 () of
             Inl e \<Rightarrow> Inl (e, disk st)
           | Inr (soup2, u) \<Rightarrow>
               (case walk_forest (script_step env base_url) soup2 () of
                  Inl e \<Rightarrow> Inl (e, disk st)
                | Inr (soup3, u') \<Rightarrow> Inr (soup3, downloaded_images st, disk st))))"

text \<open>
  The body of the outer \<^verbatim>\<open>try\<close> (lines 288-435): a fault comes with the files as they
  are when it is raised.
\<close>

definition inline_body ::
  "env \<Rightarrow> string \<Rightarrow> string \<Rightarrow> string \<Rightarrow> files
   \<Rightarrow> exn \<times> files + (string \<times> (string \<times> string) list) \<times> files" where
  "inline_body env html_content base_url page_dir fs =
     (case html_parser env html_content of
        Inl e \<Rightarrow> Inl (e, fs)
      | Inr soup \<Rightarrow>
          (let images_dir = path_join page_dir ''images''
           in if makedirs_fails env images_dir then Inl (Exception ''makedirs'', fs)
              else
                (case inline_soup env base_url images_dir soup fs of
                   Inl e \<Rightarrow> Inl e
                 | Inr (soup', downloaded, fs') \<Rightarrow>
                     (case serialize env soup' of
                        Inl e \<Rightarrow> Inl (e, fs')
                      | Inr html \<Rightarrow> Inr ((html, downloaded), fs')))))"

text \<open>
  The function with its handler (lines 437-439). The result is the pair the Python
  function returns and the files; \<open>Inl\<close> would be an exception leaving the function.
\<close>

definition download_resources_and_update_html ::
  "env \<Rightarrow> string \<Rightarrow> string \<Rightarrow> string \<Rightarrow> files
   \<Rightarrow> exn + (string \<times> (string \<times> string) list) \<times> files" where
  "download_resources_and_update_html env html_content base_url page_dir fs =
     (case inline_body env html_content base_url page_dir fs of
        Inl (e, fs') \<Rightarrow> Inr ((html_content, []), fs')
      | Inr result \<Rightarrow> Inr result)"

text \<open>
  The same loops on the list of the tags found: \<open>tag_loop step\<close> runs the loop body on
  each tag of a list and gives the tags as they are afterwards.
\<close>

fun act_on :: "action \<Rightarrow> node \<Rightarrow> node" where
  "act_on (Keep as') (Tag n as cs) = Tag n as' cs"
| "act_on (Keep as') (Text t) = Text t"
| "act_on (Keep as') (Comment t) = Comment t"
| "act_on (Replace new) t = new"

fun tag_loop :: "(string \<Rightarrow> attrs \<Rightarrow> 's \<Rightarrow> 'e + action \<times> 's) \<Rightarrow> node list \<Rightarrow> 's \<Rightarrow> 'e + node list \<times> 's" where
  "tag_loop step [] st = Inr ([], st)"
| "tag_loop step (Tag n as cs # ts) st =
     (case step n as st of
        Inl e \<Rightarrow> Inl e
      | Inr (act, st1) \<Rightarrow>
          (case tag_loop step ts st1 of
             Inl e \<Rightarrow> Inl e
           | Inr (ts', st2) \<Rightarrow> Inr (act_on act (Tag n as cs) # ts', st2)))"
| "tag_loop step (Text t # ts) st =
     (case tag_loop step ts st of Inl e \<Rightarrow> Inl e | Inr (ts', st2) \<Rightarrow> Inr (Text t # ts', st2))"
| "tag_loop step (Comment t # ts) st =
     (case tag_loop step ts st of Inl e \<Rightarrow> Inl e | Inr (ts', st2) \<Rightarrow> Inr (Comment t # ts', st2))"

text \<open>
  The shape of a parsed document: the parser gives an \<^verbatim>\<open>img\<close> or \<^verbatim>\<open>link\<close> tag no children
  (void elements) and a \<^verbatim>\<open>script\<close> or \<^verbatim>\<open>style\<close> tag only text, so none of these four
  tags contains a tag.
\<close>

definition resource_tags :: "string list" where
  "resource_tags = [''img'', ''link'', ''script'', ''style'']"

fun is_element :: "node \<Rightarrow> bool" where
  "is_element (Tag n as cs) = True"
| "is_element (Text t) = False"
| "is_element (Comment t) = False"

fun parsed_shape :: "node \<Rightarrow> bool" where
  "parsed_shape (Tag n as cs) =
     ((if n \<in> set resource_tags then \<not> list_ex is_element cs else True) \<and> list_all parsed_shape cs)"
| "parsed_shape (Text t) = True"
| "parsed_shape (Comment t) = True"

text \<open>
  A loop body is local when it leaves every tag other than these four as it is and
  replaces a tag only by one of these four that contains no tag.
\<close>

definition local_step :: "(string \<Rightarrow> attrs \<Rightarrow> 's \<Rightarrow> 'e + action \<times> 's) \<Rightarrow> bool" where
  "local_step step =
     ((\<forall>n as st. n \<notin> set resource_tags \<longrightarrow> step n as st = Inr (Keep as, st))
      \<and> (\<forall>n as st new st'. step n as st = Inr (Replace new, st') \<longrightarrow>
            (\<exists>n' as' cs'. new = Tag n' as' cs' \<and> n' \<in> set resource_tags \<and> \<not> list_ex is_element cs')))"

text \<open>The loop on the tree and the loop on the list of found tags agree.\<close>

definition agrees ::
  "(string \<Rightarrow> attrs \<Rightarrow> 's \<Rightarrow> 'e + action \<times> 's) \<Rightarrow> node list \<Rightarrow> 's \<Rightarrow> 'e + node list \<times> 's \<Rightarrow> bool" where
  "agrees step ts st r =
     (case r of
        Inl e \<Rightarrow> tag_loop step (find_all resource_tags ts) st = Inl e
      | Inr (ts', st') \<Rightarrow>
          tag_loop step (find_all resource_tags ts) st = Inr (find_all resource_tags ts', st')
          \<and> list_all parsed_shape ts')"

text \<open>A fetch of a text fails when the request raises, the status is not 200 or
  decoding the body raises.\<close>

definition fetch_text_fails :: "env \<Rightarrow> string \<Rightarrow> bool" where
  "fetch_text_fails env url =
     (case http_get env url of
        Inl e \<Rightarrow> True
      | Inr response \<Rightarrow> status response \<noteq> 200 \<or> isl (resp_text response))"

text \<open>A stylesheet link is inlined when its loop body gives a text for a
  \<^verbatim>\<open>style\<close> tag.\<close>

definition link_inlined :: "env \<Rightarrow> string \<Rightarrow> node \<Rightarrow> bool" where
  "link_inlined env base_url l =
     (case l of
        Tag n as cs \<Rightarrow> n = ''link'' \<and> rel_stylesheet as
                       \<and> (\<exists>css. inline_link env base_url as = Inr (Some css))
      | Text t \<Rightarrow> False
      | Comment t \<Rightarrow> False)"

text \<open>The content type the image loop reads (line 315).\<close>

definition img_ctype :: "response \<Rightarrow> string" where
  "img_ctype r = (case content_type r of None \<Rightarrow> ''image/jpeg'' | Some ct \<Rightarrow> ct)"

text \<open>
  An example: a serializer, three small documents and a network in which
  \<^verbatim>\<open>a.png\<close>, \<^verbatim>\<open>s.css\<close>, \<^verbatim>\<open>empty.css\<close> (an empty text) and \<^verbatim>\<open>app.js\<close> can be fetched and
  every other request times out.
\<close>

fun example_serialize :: "node \<Rightarrow> string" where
  "example_serialize (Tag n as cs) =
     ''<'' @ n @ concat (map (\<lambda>p. '' '' @ fst p @ ''='' @ snd p) as) @ ''>''
     @ concat (map example_serialize cs) @ ''</'' @ n @ ''>''"
| "example_serialize (Text t) = t"
| "example_serialize (Comment t) = ''<!--'' @ t @ ''-->''"

definition page_soup :: "node list" where
  "page_soup =
     [Tag ''html'' []
        [Tag ''head'' []
           [Tag ''link'' [(''rel'', ''stylesheet''), (''href'', ''s.css'')] [],
            Tag ''link'' [(''rel'', ''stylesheet''), (''href'', ''empty.css'')] [],
            Tag ''link'' [(''rel'', ''stylesheet''), (''href'', ''gone.css'')] [],
            Tag ''script'' [(''src'', ''app.js''), (''defer'', [])] [],
            Tag ''script'' [(''src'', ''gone.js'')] []],
         Tag ''body'' []
           [Tag ''img'' [(''src'', ''a.png''), (''alt'', ''a'')] [],
            Tag ''p'' [] [Text ''hello'', Tag ''img'' [(''src'', ''gone.png'')] []]]]]"

definition one_img_soup :: "node list" where
  "one_img_soup = [Tag ''html'' [] [Tag ''body'' [] [Tag ''img'' [(''src'', ''a.png'')] []]]]"

definition two_links_soup :: "node list" where
  "two_links_soup =
     [Tag ''link'' [(''rel'', ''stylesheet''), (''href'', ''s.css'')] [],
      Tag ''link'' [(''rel'', ''stylesheet''), (''href'', ''empty.css'')] []]"

definition ok_response :: "string \<Rightarrow> string \<Rightarrow> response" where
  "ok_response ctype body =
     \<lparr>status = 200, content_type = Some ctype, resp_read = Inr body, resp_text = Inr body\<rparr>"

definition env_page :: env where
  "env_page =
     \<lparr>http_get = (\<lambda>u. if u = ''https://h/a.png'' then Inr (ok_response ''image/png'' ''PNG'')
                       else if u = ''https://h/s.css''
                         then Inr (ok_response ''text/css'' ''p{background:url(bg.png)}'')
                       else if u = ''https://h/empty.css'' then Inr (ok_response ''text/css'' [])
                       else if u = ''https://h/app.js''
                         then Inr (ok_response ''text/javascript'' ''run()'')
                       else Inl (Exception ''timeout'')),
      urljoin = (\<lambda>b u. Inr (''https://h/'' @ u)),
      b64encode = (\<lambda>bs. if bs = ''PNG'' then ''UE5H'' else []),
      html_parser = (\<lambda>h. if h = ''page'' then Inr page_soup
                          else if h = ''one image'' then Inr one_img_soup
                          else if h = ''two links'' then Inr two_links_soup
                          else Inl (Exception ''parse'')),
      serialize = (\<lambda>soup. Inr (concat (map example_serialize soup))),
      makedirs_fails = (\<lambda>p. False),
      write_fails = (\<lambda>p. False),
      url_ext = (\<lambda>u. Inr [])\<rparr>"

text \<open>A tag and what a loop makes of it.\<close>

definition step_rel :: "(string \<Rightarrow> attrs \<Rightarrow> 's \<Rightarrow> 'e + action \<times> 's) \<Rightarrow> node \<Rightarrow> node \<Rightarrow> bool" where
  "step_rel step x y =
     (case x of
        Tag n as cs \<Rightarrow> (\<exists>st act st'. step n as st = Inr (act, st') \<and> y = act_on act x)
      | Text t \<Rightarrow> y = x
      | Comment t \<Rightarrow> y = x)"

text \<open>
  An image is embedded with a URI when its reference resolves and the fetch block
  gives that URI.
\<close>

definition img_embedded :: "env \<Rightarrow> string \<Rightarrow> string \<Rightarrow> attrs \<Rightarrow> img_state \<Rightarrow> string \<Rightarrow> bool" where
  "img_embedded env base_url images_dir as st uri =
     (\<exists>ref u p fs'.
        py_or (attr_get as ''src'') (py_or (attr_get as ''data-src'') (attr_get as ''data-lazy-src''))
          = Some ref
        \<and> ref \<noteq> [] \<and> urljoin env base_url ref = Inr u
        \<and> fetch_image env images_dir (next_idx st) u (disk st) = Inr (Some (uri, p, fs')))"

text \<open>
  What the three passes make of a tag \<open>x\<close>: an image has its \<^verbatim>\<open>src\<close> set to the data URI
  when it is embedded and is unchanged otherwise; a stylesheet link becomes a \<^verbatim>\<open>style\<close>
  tag when its loop body gives a text and is unchanged otherwise; a script with a source
  becomes the new script tag or is unchanged; every other tag is unchanged.
\<close>

definition resource_outcome :: "env \<Rightarrow> string \<Rightarrow> string \<Rightarrow> node \<Rightarrow> node \<Rightarrow> bool" where
  "resource_outcome env base_url images_dir x y =
     (case x of
        Tag n as cs \<Rightarrow>
          if n = ''img'' then
            (\<exists>st. if (\<exists>uri. img_embedded env base_url images_dir as st uri)
                  then (\<exists>uri. img_embedded env base_url images_dir as st uri
                          \<and> y = Tag n (attr_set ''src'' uri as) cs)
                  else y = x)
          else if n = ''link'' \<and> rel_stylesheet as then
            (case inline_link env base_url as of
               Inl e \<Rightarrow> y = x
             | Inr None \<Rightarrow> y = x
             | Inr (Some css) \<Rightarrow> y = Tag ''style'' [] [Text css])
          else if n = ''script'' \<and> attr_get as ''src'' \<noteq> None then
            (case inline_script env base_url as of
               Inl e \<Rightarrow> y = x
             | Inr None \<Rightarrow> y = x
             | Inr (Some new_script) \<Rightarrow> y = new_script)
          else y = x
      | Text t \<Rightarrow> y = x
      | Comment t \<Rightarrow> y = x)"

text \<open>
  Claim C1 as it is stated, for a stylesheet link \<open>x\<close> and the element \<open>y\<close> in its place:
  the reference is replaced by a data URI, or the element is unchanged and its fetch
  failed.
\<close>

definition claimed_outcome :: "env \<Rightarrow> string \<Rightarrow> node \<Rightarrow> node \<Rightarrow> bool" where
  "claimed_outcome env base_url x y =
     (case x of
        Tag n as cs \<Rightarrow>
          (\<exists>uri. prefix ''data:'' uri \<and> y = Tag n (attr_set ''href'' uri as) cs)
          \<or> (y = x \<and> (\<exists>ref u. attr_get as ''href'' = Some ref \<and> urljoin env base_url ref = Inr u
                          \<and> fetch_text_fails env u))
      | Text t \<Rightarrow> y = x
      | Comment t \<Rightarrow> y = x)"

text \<open>
  A second example, in which \<^verbatim>\<open>urljoin\<close> raises on the reference \<^verbatim>\<open>http://[bad\<close>, as
  \<^verbatim>\<open>urllib.parse.urljoin\<close> does (\<^verbatim>\<open>ValueError: Invalid IPv6 URL\<close>): two documents with one
  image and one stylesheet link, whose reference is malformed in the first document and
  whose fetch times out in the second. In a third example the disk is full: no file can
  be written.
\<close>

definition bad_ref_soup :: "node list" where
  "bad_ref_soup =
     [Tag ''html'' []
        [Tag ''head'' [] [Tag ''link'' [(''rel'', ''stylesheet''), (''href'', ''http://[bad'')] []],
         Tag ''body'' [] [Tag ''img'' [(''src'', ''a.png'')] []]]]"

definition gone_ref_soup :: "node list" where
  "gone_ref_soup =
     [Tag ''html'' []
        [Tag ''head'' [] [Tag ''link'' [(''rel'', ''stylesheet''), (''href'', ''gone.css'')] []],
         Tag ''body'' [] [Tag ''img'' [(''src'', ''a.png'')] []]]]"

definition env_strict :: env where
  "env_strict =
     env_page
       \<lparr>urljoin := (\<lambda>b u. if u = ''http://[bad'' then Inl (Exception ''Invalid IPv6 URL'')
                           else Inr (''https://h/'' @ u)),
        html_parser := (\<lambda>h. if h = ''bad reference'' then Inr bad_ref_soup
                              else if h = ''gone reference'' then Inr gone_ref_soup
                              else Inl (Exception ''parse''))\<rparr>"

definition env_disk_full :: env where
  "env_disk_full = env_page\<lparr>write_fails := (\<lambda>p. True)\<rparr>"

section \<open>Properties of URL normalisation\<close>

text \<open>
  Claim C10. A URL without an \<^verbatim>\<open>http://\<close> or \<^verbatim>\<open>https://\<close> prefix gets \<^verbatim>\<open>https://\<close>
  prepended, the result of normalisation always carries a scheme, and normalising twice
  is the same as normalising once.
\<close>

theorem normalize_idempotent:
  "(\<not> has_scheme x \<longrightarrow> normalize_url x = ''https://'' @ x)
   \<and> has_scheme (normalize_url x)
   \<and> normalize_url (normalize_url x) = normalize_url x"
  by (simp add: normalize_url_def has_scheme_def)

theorem normalize_idempotent_witness:
  "\<not> has_scheme ''example.com''
   \<and> normalize_url ''example.com'' = ''https://example.com''
   \<and> has_scheme (normalize_url ''example.com'')
   \<and> normalize_url (normalize_url ''example.com'') = ''https://example.com''"
  using normalize_idempotent [of "''example.com''"]
  by (simp add: has_scheme_def normalize_url_def)


section \<open>Properties of URL validation\<close>

text \<open>
  Claim C5, as the code has it: \<^verbatim>\<open>example.com/path\<close> and \<^verbatim>\<open>http://localhost:8080\<close> are
  accepted and \<^verbatim>\<open>not a url at all\<close> is rejected; \<^verbatim>\<open>http://256.256.256.256\<close> is accepted
  too, since the address branch of the pattern takes any four groups of one to three
  digits.
\<close>

theorem is_valid_url_examples:
  "is_valid_url ''example.com/path''
   \<and> is_valid_url ''http://localhost:8080''
   \<and> \<not> is_valid_url ''not a url at all''
   \<and> is_valid_url ''http://256.256.256.256''
   \<and> is_valid_url ''http://999.999.999.999''"
  by code_simp

text \<open>
  Claim C5 as stated wants \<^verbatim>\<open>http://256.256.256.256\<close> rejected; the pattern accepts it.
\<close>

theorem is_valid_url_accepts_256:
  "is_valid_url ''http://256.256.256.256'' \<noteq> False"
  by code_simp

section \<open>Properties of the emptiness heuristic\<close>

lemma decompose_no_tag:
  "x \<in> set (concat (map nodes_of (decompose names t))) \<Longrightarrow> \<not> is_tag names x"
proof (induction t arbitrary: x)
  case (Tag n as cs)
  then show ?case by (auto split: if_splits)
qed auto

lemma find_all_decompose:
  "find_all [''script''] (concat (map (decompose [''script'', ''style'', ''noscript'']) soup)) = []"
proof -
  have "\<not> is_tag [''script''] x"
    if "x \<in> set (concat (map nodes_of (concat (map (decompose [''script'', ''style'', ''noscript'']) soup))))"
    for x
  proof -
    from that obtain t where "t \<in> set soup"
      and "x \<in> set (concat (map nodes_of (decompose [''script'', ''style'', ''noscript''] t)))"
      by auto
    then have "\<not> is_tag [''script'', ''style'', ''noscript''] x"
      by (rule_tac decompose_no_tag)
    then show ?thesis by (cases x) auto
  qed
  then show ?thesis
    unfolding find_all_def by (simp add: filter_empty_conv)
qed

text \<open>
  The script rule never decides: the scripts are counted after all of them have been
  removed, so the count is zero.
\<close>

lemma is_likely_empty_soup_two_rules:
  "is_likely_empty_soup parsed =
     (let soup = concat (map (decompose [''script'', ''style'', ''noscript'']) parsed)
      in length (join_sp (py_split (concat (map get_text soup)))) < 100
         \<or> (case find_first ''body'' soup of
               Some body \<Rightarrow> length (join_sp (py_split (get_text body))) < 50
             | None \<Rightarrow> False))"
  unfolding is_likely_empty_soup_def Let_def find_all_decompose
  by (simp split: option.split)

lemma is_likely_empty_page_empty: "is_likely_empty_page parse [] = Inr True"
  by (simp add: is_likely_empty_page_def)

text \<open>
  Claim C4 wants the heuristic true on a document with six script tags and 150
  characters of visible text. On such a page the code answers false: 150 characters
  pass the first two rules, and the third counts no script.
\<close>

theorem is_likely_empty_page_spa:
  "length (find_all [''script''] spa_soup) = 6
   \<and> length (join_sp (py_split (concat (map get_text
        (concat (map (decompose [''script'', ''style'', ''noscript'']) spa_soup)))))) = 150
   \<and> is_likely_empty_page (\<lambda>html. Inr spa_soup) spa_html = Inr False"
  by code_simp

section \<open>Properties of the adoption of the rendering\<close>

text \<open>
  Claim C6. When the heuristic fires: a rendering longer than 1.5 times the fetched
  text replaces it; a rendering that is not so long replaces it as well; when the
  browser returns nothing, the fetched text is kept.
\<close>

theorem render_step_adoption:
  assumes "is_likely_empty_page parse h = Inr True"
  shows "(browser url = Some b \<and> b \<noteq> [] \<and> real (length b) > real (length h) * 1.5
            \<longrightarrow> render_step parse browser url h = Inr b)
       \<and> (browser url = Some b \<and> b \<noteq> [] \<and> \<not> real (length b) > real (length h) * 1.5
            \<longrightarrow> render_step parse browser url h = Inr b)
       \<and> (browser url = None \<or> browser url = Some []
            \<longrightarrow> render_step parse browser url h = Inr h)"
  using assms by (auto simp: render_step_def adopt_browser_html_def)

theorem render_step_adoption_witness:
  "is_likely_empty_page (\<lambda>html. Inr []) ''<html></html>'' = Inr True
   \<and> render_step (\<lambda>html. Inr []) (\<lambda>u. Some ''<html><body>rendered</body></html>'')
        ''https://example.com'' ''<html></html>'' = Inr ''<html><body>rendered</body></html>''
   \<and> render_step (\<lambda>html. Inr []) (\<lambda>u. Some ''<html/>'')
        ''https://example.com'' ''<html></html>'' = Inr ''<html/>''
   \<and> render_step (\<lambda>html. Inr []) (\<lambda>u. None)
        ''https://example.com'' ''<html></html>'' = Inr ''<html></html>''"
proof -
  have e: "is_likely_empty_page (\<lambda>html. Inr []) ''<html></html>'' = Inr True"
    by (simp add: is_likely_empty_page_def is_likely_empty_soup_def py_split_def find_all_def
        find_first_def)
  show ?thesis
    using e
      render_step_adoption [OF e, of "\<lambda>u. Some ''<html><body>rendered</body></html>''"
        "''https://example.com''" "''<html><body>rendered</body></html>''"]
      render_step_adoption [OF e, of "\<lambda>u. Some ''<html/>''" "''https://example.com''" "''<html/>''"]
      render_step_adoption [OF e, of "\<lambda>u. None" "''https://example.com''" "[]"]
    by simp
qed

section \<open>Properties of the retention sweep\<close>








section \<open>Properties of the stylesheet rewriter\<close>

lemma slice_split: "p \<le> q \<Longrightarrow> q \<le> k \<Longrightarrow> slice s p k = slice s p q @ slice s q k"
proof -
  assume a: "p \<le> q" "q \<le> k"
  then have k: "k - p = (q - p) + (k - q)" and d: "drop q s = drop (q - p) (drop p s)"
    by simp_all
  show ?thesis
    unfolding slice_def k d by (rule take_add)
qed

lemma slice_drop: "p \<le> q \<Longrightarrow> drop p s = slice s p q @ drop q s"
proof -
  assume "p \<le> q"
  then have d: "drop q s = drop (q - p) (drop p s)" by simp
  show ?thesis unfolding slice_def d by (rule append_take_drop_id [symmetric])
qed

lemma rebuild_shift:
  "p \<le> q \<Longrightarrow> (case ms of [] \<Rightarrow> True | x # _ \<Rightarrow> q \<le> m_start (fst x))
   \<Longrightarrow> concat (rebuild css p ms) = slice css p q @ concat (rebuild css q ms)"
proof (cases ms)
  case Nil
  assume "p \<le> q"
  with Nil show ?thesis by (simp add: slice_drop [of p q])
next
  case (Cons x rest)
  assume "p \<le> q" "case ms of [] \<Rightarrow> True | x # _ \<Rightarrow> q \<le> m_start (fst x)"
  with Cons show ?thesis
    by (cases x) (auto intro: slice_split)
qed

lemma finditer_nomatch:
  "rmatch ic r (s, None) = [] \<Longrightarrow>
   finditer ic r pos s = (case s of [] \<Rightarrow> [] | c # cs \<Rightarrow> finditer ic r (Suc pos) cs)"
  by (subst finditer.simps) simp

lemma finditer_match:
  "rmatch ic r (s, None) = st # sts \<Longrightarrow> n = length s - length (fst st) \<Longrightarrow>
   finditer ic r pos s =
     \<lparr>m_start = pos, m_end = pos + n, group0 = take n s, group1 = snd st\<rparr>
     # (if n = 0 then (case s of [] \<Rightarrow> [] | c # cs \<Rightarrow> finditer ic r (Suc pos) cs)
        else finditer ic r (pos + n) (drop n s))"
  by (subst finditer.simps) (simp add: Let_def)

lemma finditer_start: "finditer ic r pos s = m # ms \<Longrightarrow> pos \<le> m_start m"
proof (induction ic r pos s rule: finditer.induct)
  case (1 ic r pos s)
  show ?case
  proof (cases "rmatch ic r (s, None)")
    case Nil
    show ?thesis
    proof (cases s)
      case Nil
      with "1.prems" finditer_nomatch [OF \<open>rmatch ic r (s, None) = []\<close>, of pos]
      show ?thesis by simp
    next
      case (Cons c cs)
      with "1.prems" finditer_nomatch [OF \<open>rmatch ic r (s, None) = []\<close>, of pos]
      have "finditer ic r (Suc pos) cs = m # ms" by simp
      with "1.IH"(1) [OF \<open>rmatch ic r (s, None) = []\<close> Cons] show ?thesis by simp
    qed
  next
    case (Cons st sts)
    with "1.prems" finditer_match [OF Cons refl, of pos] show ?thesis
      by auto
  qed
qed

lemma rebuild_id:
  "length pre = pos \<Longrightarrow>
   concat (rebuild (pre @ s) pos (map (\<lambda>m. (m, group0 m)) (finditer ic r pos s))) = s"
proof (induction ic r pos s arbitrary: pre rule: finditer.induct)
  case (1 ic r pos s)
  define css where "css = pre @ s"
  have skip: "concat (rebuild css pos (map (\<lambda>m. (m, group0 m)) (finditer ic r (Suc pos) cs))) = c # cs"
    if s: "s = c # cs"
      and ih: "\<And>pre. length pre = Suc pos \<Longrightarrow>
          concat (rebuild (pre @ cs) (Suc pos) (map (\<lambda>m. (m, group0 m)) (finditer ic r (Suc pos) cs))) = cs"
    for c cs
  proof -
    have st: "case map (\<lambda>m. (m, group0 m)) (finditer ic r (Suc pos) cs) of [] \<Rightarrow> True
              | x # _ \<Rightarrow> Suc pos \<le> m_start (fst x)"
      by (auto split: list.split dest: finditer_start)
    have "concat (rebuild css pos (map (\<lambda>m. (m, group0 m)) (finditer ic r (Suc pos) cs)))
          = slice css pos (Suc pos)
            @ concat (rebuild css (Suc pos) (map (\<lambda>m. (m, group0 m)) (finditer ic r (Suc pos) cs)))"
      by (rule rebuild_shift) (use st in simp_all)
    moreover have "slice css pos (Suc pos) = [c]"
      using s "1.prems" by (simp add: slice_def css_def)
    moreover have "css = (pre @ [c]) @ cs" using s by (simp add: css_def)
    ultimately show ?thesis
      using ih [of "pre @ [c]"] "1.prems" by simp
  qed
  show ?case
  proof (cases "rmatch ic r (s, None)")
    case Nil
    note nomatch = finditer_nomatch [OF Nil, of pos]
    show ?thesis
    proof (cases s)
      case Nil
      with nomatch "1.prems" show ?thesis by simp
    next
      case (Cons c cs)
      have "concat (rebuild css pos (map (\<lambda>m. (m, group0 m)) (finditer ic r (Suc pos) cs))) = c # cs"
        using Cons "1.IH"(1) [OF \<open>rmatch ic r (s, None) = []\<close> Cons] by (intro skip) auto
      with Cons nomatch show ?thesis by (simp add: css_def)
    qed
  next
    case (Cons st sts)
    define n where "n = length s - length (fst st)"
    note match = finditer_match [OF Cons n_def, of pos]
    show ?thesis
    proof (cases "n = 0")
      case True
      show ?thesis
      proof (cases s)
        case Nil
        with match True "1.prems" show ?thesis by (simp add: slice_def)
      next
        case (Cons c cs)
        have "concat (rebuild css pos (map (\<lambda>m. (m, group0 m)) (finditer ic r (Suc pos) cs))) = c # cs"
          using Cons "1.IH"(2) [OF \<open>rmatch ic r (s, None) = st # sts\<close> n_def refl True Cons]
          by (intro skip) auto
        with Cons match True show ?thesis by (simp add: slice_def css_def)
      qed
    next
      case False
      have n: "n \<le> length s" by (simp add: n_def)
      have "concat (rebuild ((pre @ take n s) @ drop n s) (pos + n)
              (map (\<lambda>m. (m, group0 m)) (finditer ic r (pos + n) (drop n s)))) = drop n s"
        using "1.IH"(3) [OF \<open>rmatch ic r (s, None) = st # sts\<close> n_def refl False, of "pre @ take n s"]
          "1.prems" n by simp
      with match False show ?thesis by (simp add: slice_def)
    qed
  qed
qed


lemma replace_url_ok:
  "group1 m = Some u \<Longrightarrow> u \<noteq> [] \<Longrightarrow> \<not> css_skipped u \<Longrightarrow> urljoin env css_url u = Inr full
   \<Longrightarrow> http_get env full = Inr response \<Longrightarrow> status response = 200
   \<Longrightarrow> resp_read response = Inr content
   \<Longrightarrow> replace_url env css_url m = Some (data_url env response content)"
  by (simp add: replace_url_def css_skipped_def data_url_def)

lemma replace_url_fails:
  "group1 m = Some u \<Longrightarrow> urljoin env css_url u = Inr full \<Longrightarrow> fetch_fails env full
   \<Longrightarrow> (case replace_url env css_url m of Some t \<Rightarrow> t | None \<Rightarrow> group0 m) = group0 m"
  by (auto simp: replace_url_def fetch_fails_def isl_def split: sum.splits)

lemma process_css_urls_rebuild:
  "process_css_urls env css css_url
     = concat (rebuild css 0
         (map (\<lambda>m. (m, case replace_url env css_url m of Some t \<Rightarrow> t | None \<Rightarrow> group0 m))
              (finditer True css_url_regex 0 css)))"
proof -
  have z: "zip ms (map (\<lambda>(r, m). case r of Some t \<Rightarrow> t | None \<Rightarrow> group0 m)
                      (zip (map f ms) ms))
           = map (\<lambda>m. (m, case f m of Some t \<Rightarrow> t | None \<Rightarrow> group0 m)) ms"
    for f :: "re_match \<Rightarrow> string option" and ms
    by (induction ms) simp_all
  show ?thesis
    by (simp add: process_css_urls_def Let_def z)
qed

text \<open>
  Claim C3. A stylesheet with two references, the first fetched, the second failing:
  the text before, between and after the two matches is kept as it is, the first match
  becomes \<^verbatim>\<open>url(data:<mime>;base64,<payload>)\<close> and the second keeps its text. In general
  the result is the input with every match replaced by what \<open>replace_url\<close> gives for
  that match alone.
\<close>

theorem process_css_urls_two:
  assumes "finditer True css_url_regex 0 css = [m1, m2]"
    and "group1 m1 = Some u1" and "u1 \<noteq> []" and "\<not> css_skipped u1"
    and "urljoin env css_url u1 = Inr full1"
    and "http_get env full1 = Inr response" and "status response = 200"
    and "resp_read response = Inr content"
    and "group1 m2 = Some u2" and "urljoin env css_url u2 = Inr full2"
    and "fetch_fails env full2"
  shows "process_css_urls env css css_url
           = slice css 0 (m_start m1) @ data_url env response content
             @ slice css (m_end m1) (m_start m2) @ group0 m2 @ drop (m_end m2) css
         \<and> css = slice css 0 (m_start m1) @ group0 m1
             @ slice css (m_end m1) (m_start m2) @ group0 m2 @ drop (m_end m2) css
         \<and> process_css_urls env css css_url
             = concat (rebuild css 0
                 (map (\<lambda>m. (m, case replace_url env css_url m of Some t \<Rightarrow> t | None \<Rightarrow> group0 m))
                      (finditer True css_url_regex 0 css)))"
proof -
  have r1: "replace_url env css_url m1 = Some (data_url env response content)"
    using assms(2-8) by (rule replace_url_ok)
  have r2: "(case replace_url env css_url m2 of Some t \<Rightarrow> t | None \<Rightarrow> group0 m2) = group0 m2"
    using assms(9-11) by (rule replace_url_fails)
  have a: "process_css_urls env css css_url
           = slice css 0 (m_start m1) @ data_url env response content
             @ slice css (m_end m1) (m_start m2) @ group0 m2 @ drop (m_end m2) css"
    using r1 r2 by (simp add: process_css_urls_def assms(1))
  have "concat (rebuild ([] @ css) 0 (map (\<lambda>m. (m, group0 m)) (finditer True css_url_regex 0 css))) = css"
    by (rule rebuild_id) simp
  then have b: "css = slice css 0 (m_start m1) @ group0 m1
             @ slice css (m_end m1) (m_start m2) @ group0 m2 @ drop (m_end m2) css"
    by (simp add: assms(1))
  from a b process_css_urls_rebuild [of env css css_url] show ?thesis by blast
qed

lemma finditer_css1: "finditer True css_url_regex 0 css1 =
   [\<lparr>m_start = 13, m_end = 23, group0 = ''url(x.png)'', group1 = Some ''x.png''\<rparr>,
    \<lparr>m_start = 31, m_end = 42, group0 = ''url(f.woff)'', group1 = Some ''f.woff''\<rparr>]"
  by code_simp

theorem process_css_urls_two_witness:
  "process_css_urls env1 css1 ''https://h/s.css''
     = ''a{background:url(data:image/png;base64,UE5H)} b{src:url(f.woff)}''"
  using process_css_urls_two [OF finditer_css1, of "''x.png''" env1 "''https://h/s.css''" "''https://h/x.png''"
     "\<lparr>status = 200, content_type = Some ''image/png'',
                                        resp_read = Inr ''PNG'', resp_text = Inl (Exception ''binary'')\<rparr>" "''PNG''" "''f.woff''" "''https://h/f.woff''"]
  by (simp add: env1_def css1_def css_skipped_def fetch_fails_def slice_def data_url_def)

section \<open>Properties of the document inliner\<close>

lemma walk_flat: "\<not> list_ex is_element cs \<Longrightarrow> walk_forest step cs st = Inr (cs, st)"
proof (induction cs)
  case Nil
  show ?case by simp
next
  case (Cons c cs)
  then show ?case by (cases c) simp_all
qed

lemma find_all_flat: "\<not> list_ex is_element cs \<Longrightarrow> find_all names cs = []"
proof (induction cs)
  case Nil
  show ?case by (simp add: find_all_def)
next
  case (Cons c cs)
  then show ?case by (cases c) (simp_all add: find_all_def)
qed

lemma find_all_Cons: "find_all names (t # ts) = find_all names [t] @ find_all names ts"
  by (simp add: find_all_def)

lemma find_all_Tag:
  "find_all names [Tag n as cs]
     = (if n \<in> set names then [Tag n as cs] else []) @ find_all names cs"
  by (simp add: find_all_def)

lemma find_all_Text [simp]: "find_all names [Text t] = []" "find_all names [Comment t] = []"
  by (simp_all add: find_all_def)

lemma find_all_Nil [simp]: "find_all names [] = []"
  by (simp add: find_all_def)

lemma tag_loop_append:
  "tag_loop step (xs @ ys) st =
     (case tag_loop step xs st of
        Inl e \<Rightarrow> Inl e
      | Inr (xs', st1) \<Rightarrow>
          (case tag_loop step ys st1 of
             Inl e \<Rightarrow> Inl e
           | Inr (ys', st2) \<Rightarrow> Inr (xs' @ ys', st2)))"
proof (induction step xs st rule: tag_loop.induct)
  case (1 step st)
  show ?case by (simp split: sum.split prod.split)
next
  case (2 step n as cs ts st)
  then show ?case by (simp split: sum.split prod.split)
next
  case (3 step t ts st)
  then show ?case by (simp split: sum.split prod.split)
next
  case (4 step t ts st)
  then show ?case by (simp split: sum.split prod.split)
qed

lemma flat_shape: "\<not> list_ex is_element cs \<Longrightarrow> list_all parsed_shape cs"
proof (induction cs)
  case Nil
  show ?case by simp
next
  case (Cons c cs)
  then show ?case by (cases c) simp_all
qed

lemma walk_loop_tag:
  fixes step :: "string \<Rightarrow> attrs \<Rightarrow> 's \<Rightarrow> 'e + action \<times> 's"
  assumes ls: "local_step step"
    and sh: "parsed_shape (Tag n as cs)"
    and ih: "\<And>act st1. step n as st = Inr (act, st1) \<Longrightarrow> agrees step cs st1 (walk_forest step cs st1)"
  shows "agrees step [Tag n as cs] st
           (case walk_node step (Tag n as cs) st of Inl e \<Rightarrow> Inl e | Inr (t', st') \<Rightarrow> Inr ([t'], st'))"
proof (cases "n \<in> set resource_tags")
  case True
  with sh have flat: "\<not> list_ex is_element cs" by simp
  have f: "find_all resource_tags [Tag n as cs] = [Tag n as cs]"
    using True flat by (simp add: find_all_Tag find_all_flat)
  show ?thesis
  proof (cases "step n as st")
    case (Inl e)
    then show ?thesis by (simp add: agrees_def f)
  next
    case (Inr x)
    obtain act st1 where x: "x = (act, st1)" by (cases x)
    show ?thesis
    proof (cases act)
      case (Keep as')
      have "find_all resource_tags [Tag n as' cs] = [Tag n as' cs]"
        using True flat by (simp add: find_all_Tag find_all_flat)
      with Inr x Keep flat sh True show ?thesis
        by (simp add: agrees_def f walk_flat)
    next
      case (Replace new)
      with Inr x ls obtain n' as' cs' where new: "new = Tag n' as' cs'"
        and n': "n' \<in> set resource_tags" and flat': "\<not> list_ex is_element cs'"
        unfolding local_step_def by blast
      have "find_all resource_tags [new] = [new]"
        using new n' flat' by (simp add: find_all_Tag find_all_flat)
      moreover have "parsed_shape new"
        using new n' flat' by (simp add: flat_shape)
      ultimately show ?thesis
        using Inr x Replace flat by (simp add: agrees_def f walk_flat)
    qed
  qed
next
  case False
  with ls have st: "step n as st = Inr (Keep as, st)"
    unfolding local_step_def by blast
  have f: "find_all resource_tags [Tag n as cs'] = find_all resource_tags cs'" for cs'
    using False by (simp add: find_all_Tag)
  from ih [OF st] show ?thesis
    using False st by (auto simp: agrees_def f split: sum.splits)
qed

lemma walk_loop:
  fixes step :: "string \<Rightarrow> attrs \<Rightarrow> 's \<Rightarrow> 'e + action \<times> 's"
  assumes ls: "local_step step"
  shows "parsed_shape t \<Longrightarrow>
           agrees step [t] st (case walk_node step t st of Inl e \<Rightarrow> Inl e | Inr (t', st') \<Rightarrow> Inr ([t'], st'))"
    and "list_all parsed_shape ts \<Longrightarrow> agrees step ts st (walk_forest step ts st)"
  using ls
proof (induction step t st and step ts st rule: walk_node_walk_forest.induct)
  case (1 step n as cs st)
  show ?case
  proof (rule walk_loop_tag)
    show "local_step step" by fact
    show "parsed_shape (Tag n as cs)" by fact
    fix act st1
    assume "step n as st = Inr (act, st1)"
    moreover have "list_all parsed_shape cs" using "1.prems"(1) by simp
    ultimately show "agrees step cs st1 (walk_forest step cs st1)"
      using "1.IH" "1.prems"(2) by blast
  qed
next
  case (2 step t st)
  show ?case by (simp add: agrees_def)
next
  case (3 step t st)
  show ?case by (simp add: agrees_def)
next
  case (4 step st)
  show ?case by (simp add: agrees_def)
next
  case (5 step t ts st)
  have sh: "parsed_shape t" "list_all parsed_shape ts" using "5.prems"(1) by simp_all
  have a: "agrees step [t] st
             (case walk_node step t st of Inl e \<Rightarrow> Inl e | Inr (t', st') \<Rightarrow> Inr ([t'], st'))"
    using "5.IH"(1) sh(1) "5.prems"(2) by blast
  show ?case
  proof (cases "walk_node step t st")
    case (Inl e)
    with a show ?thesis
      by (simp add: agrees_def find_all_Cons [of _ t ts] tag_loop_append)
  next
    case (Inr x)
    obtain t' st1 where x: "x = (t', st1)" by (cases x)
    have b: "agrees step ts st1 (walk_forest step ts st1)"
      using "5.IH"(2) [OF Inr x [symmetric] sh(2) "5.prems"(2)] .
    show ?thesis
    proof (cases "walk_forest step ts st1")
      case (Inl e)
      with a b Inr x show ?thesis
        by (simp add: agrees_def find_all_Cons [of _ t ts] tag_loop_append)
    next
      case r: (Inr y)
      obtain ts' st2 where y: "y = (ts', st2)" by (cases y)
      from a b Inr x r y show ?thesis
        by (simp add: agrees_def find_all_Cons [of _ t ts] find_all_Cons [of _ t' ts']
            tag_loop_append)
    qed
  qed
qed

text \<open>
  A fault that leaves one of the three loops was raised by its loop body, and a loop
  body raises only what \<^verbatim>\<open>urljoin\<close> raises: requests, the reading and decoding of
  responses and the writing of files raise nothing that leaves the loop body.
\<close>

lemma walk_fault:
  fixes step :: "string \<Rightarrow> attrs \<Rightarrow> 's \<Rightarrow> 'e + action \<times> 's"
  shows "walk_node step t st = Inl e \<Longrightarrow> \<exists>n as st'. step n as st' = Inl e"
    and "walk_forest step ts st = Inl e \<Longrightarrow> \<exists>n as st'. step n as st' = Inl e"
proof (induction step t st and step ts st rule: walk_node_walk_forest.induct)
  case (1 step n as cs st)
  then show ?case
    by (auto split: sum.splits prod.splits action.splits)
next
  case (5 step t ts st)
  then show ?case
    by (auto split: sum.splits prod.splits)
qed simp_all

lemma img_step_fault:
  "img_step env base d n as st = Inl (e, fs') \<Longrightarrow> \<exists>ref. urljoin env base ref = Inl e"
  by (auto simp: img_step_def process_img_def Let_def
           split: if_splits sum.splits option.splits prod.splits)

lemma link_step_fault:
  "link_step env base n as st = Inl e \<Longrightarrow> \<exists>ref. urljoin env base ref = Inl e"
  by (auto simp: link_step_def inline_link_def Let_def
           split: if_splits sum.splits option.splits)

lemma script_step_fault:
  "script_step env base n as st = Inl e \<Longrightarrow> \<exists>ref. urljoin env base ref = Inl e"
  by (auto simp: script_step_def inline_script_def Let_def
           split: if_splits sum.splits option.splits)

lemma inline_soup_fault:
  assumes "inline_soup env base d soup fs = Inl (e, fs')"
  shows "\<exists>ref. urljoin env base ref = Inl e"
proof (cases "walk_forest (img_step env base d) soup
                \<lparr>next_idx = 0, disk = fs, downloaded_images = []\<rparr>")
  case (Inl x)
  with assms have "x = (e, fs')" by (simp add: inline_soup_def)
  with Inl show ?thesis
    using walk_fault(2) [of "img_step env base d" soup _ "(e, fs')"] img_step_fault by blast
next
  case (Inr y)
  obtain soup1 st where y: "y = (soup1, st)" by (cases y)
  show ?thesis
  proof (cases "walk_forest (link_step env base) soup1 ()")
    case (Inl x)
    with assms Inr y have "x = e" by (simp add: inline_soup_def)
    with Inl show ?thesis
      using walk_fault(2) [of "link_step env base" soup1 "()" e] link_step_fault by blast
  next
    case r: (Inr y2)
    obtain soup2 u where y2: "y2 = (soup2, u)" by (cases y2)
    show ?thesis
    proof (cases "walk_forest (script_step env base) soup2 ()")
      case (Inl x)
      with assms Inr y r y2 have "x = e" by (simp add: inline_soup_def)
      with Inl show ?thesis
        using walk_fault(2) [of "script_step env base" soup2 "()" e] script_step_fault by blast
    next
      case s: (Inr y3)
      with assms Inr y r y2 show ?thesis by (simp add: inline_soup_def split: prod.splits)
    qed
  qed
qed

text \<open>
  So a fault of the body of the outer \<^verbatim>\<open>try\<close> comes from the parser, from
  \<^verbatim>\<open>os.makedirs\<close>, from \<^verbatim>\<open>urljoin\<close> or from the serializer.
\<close>

lemma inline_body_fault:
  assumes "inline_body env html base dir fs = Inl (e, fs')"
  shows "html_parser env html = Inl e
       \<or> makedirs_fails env (path_join dir ''images'')
       \<or> (\<exists>ref. urljoin env base ref = Inl e)
       \<or> (\<exists>soup'. serialize env soup' = Inl e)"
proof (cases "html_parser env html")
  case (Inl x)
  with assms show ?thesis by (simp add: inline_body_def)
next
  case (Inr soup)
  show ?thesis
  proof (cases "makedirs_fails env (path_join dir ''images'')")
    case True
    then show ?thesis by simp
  next
    case False
    show ?thesis
    proof (cases "inline_soup env base (path_join dir ''images'') soup fs")
      case (Inl x)
      with assms Inr False have "x = (e, fs')" by (simp add: inline_body_def)
      with Inl show ?thesis using inline_soup_fault by blast
    next
      case r: (Inr y)
      with assms Inr False show ?thesis
        by (auto simp: inline_body_def split: prod.splits sum.splits)
    qed
  qed
qed

text \<open>
  An image, a stylesheet link or a script whose reference resolves and whose fetch fails
  is left as it is, and the loop goes on with the next tag.
\<close>

lemma img_step_skips:
  assumes "py_or (attr_get as ''src'') (py_or (attr_get as ''data-src'') (attr_get as ''data-lazy-src'')) = Some raw"
    and "urljoin env base raw = Inr u" and "fetch_fails env u"
  shows "img_step env base d ''img'' as st = Inr (Keep as, st\<lparr>next_idx := Suc (next_idx st)\<rparr>)"
  using assms
  by (auto simp: img_step_def process_img_def py_or_def fetch_image_def fetch_fails_def Let_def isl_def
           split: option.splits sum.splits if_splits)

lemma link_step_skips:
  assumes "attr_get as ''href'' = Some href" and "urljoin env base href = Inr u"
    and "fetch_text_fails env u"
  shows "link_step env base ''link'' as () = Inr (Keep as, ())"
  using assms
  by (auto simp: link_step_def inline_link_def fetch_text_fails_def isl_def split: sum.splits)

lemma script_step_skips:
  assumes "attr_get as ''src'' = Some src" and "urljoin env base src = Inr u"
    and "fetch_text_fails env u"
  shows "script_step env base ''script'' as () = Inr (Keep as, ())"
  using assms
  by (auto simp: script_step_def inline_script_def fetch_text_fails_def isl_def split: sum.splits)

text \<open>
  The function returns for every input; when the body of its \<^verbatim>\<open>try\<close> meets a fault it
  returns the input text unchanged and an empty image list.
\<close>

lemma download_returns:
  "\<exists>r. download_resources_and_update_html env html base dir fs = Inr r"
  by (auto simp: download_resources_and_update_html_def split: sum.splits)

lemma download_fallback:
  "inline_body env html base dir fs = Inl (e, fs') \<Longrightarrow>
   download_resources_and_update_html env html base dir fs = Inr ((html, []), fs')"
  by (simp add: download_resources_and_update_html_def)

lemma local_img_step: "local_step (img_step env base d)"
  by (auto simp: local_step_def img_step_def resource_tags_def split: sum.splits)

lemma local_link_step: "local_step (link_step env base)"
  by (auto simp: local_step_def link_step_def resource_tags_def split: sum.splits option.splits)

lemma inline_script_new:
  "inline_script env base as = Inr (Some new) \<Longrightarrow>
   \<exists>js. new = Tag ''script'' (filter (\<lambda>p. fst p \<noteq> ''src'') as) [Text js]"
  by (auto simp: inline_script_def split: option.splits if_splits sum.splits)

lemma local_script_step: "local_step (script_step env base)"
  by (auto simp: local_step_def script_step_def resource_tags_def
           split: sum.splits option.splits dest!: inline_script_new)

lemma inline_soup_loops:
  assumes sh: "list_all parsed_shape soup"
    and r: "inline_soup env base d soup fs = Inr (soup3, dl, fs')"
  shows "\<exists>soup1 soup2 st1.
           tag_loop (img_step env base d) (find_all resource_tags soup)
               \<lparr>next_idx = 0, disk = fs, downloaded_images = []\<rparr>
             = Inr (find_all resource_tags soup1, st1)
           \<and> tag_loop (link_step env base) (find_all resource_tags soup1) ()
             = Inr (find_all resource_tags soup2, ())
           \<and> tag_loop (script_step env base) (find_all resource_tags soup2) ()
             = Inr (find_all resource_tags soup3, ())
           \<and> dl = downloaded_images st1 \<and> fs' = disk st1"
proof -
  obtain soup1 st1 where 1: "walk_forest (img_step env base d) soup
      \<lparr>next_idx = 0, disk = fs, downloaded_images = []\<rparr> = Inr (soup1, st1)"
    using r by (auto simp: inline_soup_def split: sum.splits)
  obtain soup2 where 2: "walk_forest (link_step env base) soup1 () = Inr (soup2, ())"
    using r 1 by (auto simp: inline_soup_def split: sum.splits)
  have 3: "walk_forest (script_step env base) soup2 () = Inr (soup3, ())"
    and 4: "dl = downloaded_images st1" "fs' = disk st1"
    using r 1 2 by (auto simp: inline_soup_def split: sum.splits)
  have a: "tag_loop (img_step env base d) (find_all resource_tags soup)
               \<lparr>next_idx = 0, disk = fs, downloaded_images = []\<rparr>
             = Inr (find_all resource_tags soup1, st1)" and s1: "list_all parsed_shape soup1"
    using walk_loop(2) [OF local_img_step sh, of env base d
        "\<lparr>next_idx = 0, disk = fs, downloaded_images = []\<rparr>"] 1
    by (simp_all add: agrees_def)
  have b: "tag_loop (link_step env base) (find_all resource_tags soup1) ()
             = Inr (find_all resource_tags soup2, ())" and s2: "list_all parsed_shape soup2"
    using walk_loop(2) [OF local_link_step s1, of env base "()"] 2
    by (simp_all add: agrees_def)
  have c: "tag_loop (script_step env base) (find_all resource_tags soup2) ()
             = Inr (find_all resource_tags soup3, ())"
    using walk_loop(2) [OF local_script_step s2, of env base "()"] 3
    by (simp_all add: agrees_def)
  from a b c 4 show ?thesis by blast
qed

lemma tag_loop_keeps:
  fixes step :: "string \<Rightarrow> attrs \<Rightarrow> 's \<Rightarrow> 'e + action \<times> 's"
  assumes "\<And>n as cs st act st'. step n as st = Inr (act, st') \<Longrightarrow>
             filter (is_tag [k]) [act_on act (Tag n as cs)] = filter (is_tag [k]) [Tag n as cs]"
  shows "tag_loop step xs st = Inr (ys, st') \<Longrightarrow> filter (is_tag [k]) ys = filter (is_tag [k]) xs"
  using assms
proof (induction step xs st arbitrary: ys st' rule: tag_loop.induct)
  case (1 step st)
  then show ?case by simp
next
  case (2 step n as cs ts st)
  from "2.prems"(1) obtain act st1 ts' where s: "step n as st = Inr (act, st1)"
    and l: "tag_loop step ts st1 = Inr (ts', st')" and y: "ys = act_on act (Tag n as cs) # ts'"
    by (auto split: sum.splits)
  have "filter (is_tag [k]) ts' = filter (is_tag [k]) ts"
    using "2.IH" [OF s refl l "2.prems"(2)] .
  moreover have "filter (is_tag [k]) [act_on act (Tag n as cs)] = filter (is_tag [k]) [Tag n as cs]"
    using "2.prems"(2) [OF s] .
  ultimately show ?case
    unfolding y by (metis append_Cons append_Nil filter_append)
next
  case (3 step t ts st)
  then show ?case by (auto split: sum.splits)
next
  case (4 step t ts st)
  then show ?case by (auto split: sum.splits)
qed

lemma find_all_sub:
  "set names \<subseteq> set names' \<Longrightarrow> find_all names soup = filter (is_tag names) (find_all names' soup)"
proof -
  assume a: "set names \<subseteq> set names'"
  have "is_tag names x \<and> is_tag names' x \<longleftrightarrow> is_tag names x" for x
    using a by (cases x) auto
  then show ?thesis by (simp add: find_all_def conj_commute)
qed

lemma link_loop_links:
  "tag_loop (link_step env base) xs () = Inr (ys, ()) \<Longrightarrow>
   filter (is_tag [''link'']) ys
     = filter (\<lambda>l. \<not> link_inlined env base l) (filter (is_tag [''link'']) xs)"
proof (induction "link_step env base" xs "()" arbitrary: ys rule: tag_loop.induct)
  case 1
  then show ?case by simp
next
  case (2 n as cs ts)
  from "2.prems" obtain act ts' where s: "link_step env base n as () = Inr (act, ())"
    and l: "tag_loop (link_step env base) ts () = Inr (ts', ())"
    and y: "ys = act_on act (Tag n as cs) # ts'"
    by (auto split: sum.splits)
  have ih: "filter (is_tag [''link'']) ts'
     = filter (\<lambda>l. \<not> link_inlined env base l) (filter (is_tag [''link'']) ts)"
    using "2.hyps" [OF s refl l] .
  from s show ?case
    unfolding y
    by (auto simp: ih link_step_def link_inlined_def split: if_splits sum.splits option.splits)
next
  case (3 t ts)
  then show ?case by (auto split: sum.splits simp: link_inlined_def)
next
  case (4 t ts)
  then show ?case by (auto split: sum.splits simp: link_inlined_def)
qed

lemma img_loop_links:
  "tag_loop (img_step env base d) xs st = Inr (ys, st') \<Longrightarrow>
   filter (is_tag [''link'']) ys = filter (is_tag [''link'']) xs"
  by (rule tag_loop_keeps [where step = "img_step env base d"])
     (auto simp: img_step_def split: if_splits sum.splits)

lemma script_loop_links:
  "tag_loop (script_step env base) xs st = Inr (ys, st') \<Longrightarrow>
   filter (is_tag [''link'']) ys = filter (is_tag [''link'']) xs"
  by (rule tag_loop_keeps [where step = "script_step env base"])
     (auto simp: script_step_def split: if_splits sum.splits option.splits dest!: inline_script_new)

lemma link_loop_imgs:
  "tag_loop (link_step env base) xs st = Inr (ys, st') \<Longrightarrow>
   filter (is_tag [''img'']) ys = filter (is_tag [''img'']) xs"
  by (rule tag_loop_keeps [where step = "link_step env base"])
     (auto simp: link_step_def split: if_splits sum.splits option.splits)

lemma script_loop_imgs:
  "tag_loop (script_step env base) xs st = Inr (ys, st') \<Longrightarrow>
   filter (is_tag [''img'']) ys = filter (is_tag [''img'']) xs"
  by (rule tag_loop_keeps [where step = "script_step env base"])
     (auto simp: script_step_def split: if_splits sum.splits option.splits dest!: inline_script_new)

lemma inline_soup_links:
  assumes "list_all parsed_shape soup"
    and "inline_soup env base d soup fs = Inr (soup', dl, fs')"
  shows "find_all [''link''] soup'
           = filter (\<lambda>l. \<not> link_inlined env base l) (find_all [''link''] soup)"
proof -
  obtain soup1 soup2 st1 where
    a: "tag_loop (img_step env base d) (find_all resource_tags soup)
               \<lparr>next_idx = 0, disk = fs, downloaded_images = []\<rparr>
             = Inr (find_all resource_tags soup1, st1)"
    and b: "tag_loop (link_step env base) (find_all resource_tags soup1) ()
             = Inr (find_all resource_tags soup2, ())"
    and c: "tag_loop (script_step env base) (find_all resource_tags soup2) ()
             = Inr (find_all resource_tags soup', ())"
    using inline_soup_loops [OF assms] by auto
  have sub: "set [''link''] \<subseteq> set resource_tags" by (simp add: resource_tags_def)
  show ?thesis
    unfolding find_all_sub [OF sub]
    using img_loop_links [OF a] link_loop_links [OF b] script_loop_links [OF c] by simp
qed

lemma inline_body_Inr:
  assumes "html_parser env html = Inr soup"
    and "inline_body env html base dir fs = Inr ((html', imgs), fs')"
  shows "\<exists>soup'. inline_soup env base (path_join dir ''images'') soup fs = Inr (soup', imgs, fs')
           \<and> serialize env soup' = Inr html'"
  using assms
  by (auto simp: inline_body_def Let_def split: if_splits sum.splits)

lemma inline_link_Some:
  "inline_link env base as = Inr (Some css') \<Longrightarrow>
   \<exists>ref u r css. attr_get as ''href'' = Some ref \<and> urljoin env base ref = Inr u
     \<and> http_get env u = Inr r \<and> status r = 200 \<and> resp_text r = Inr css \<and> css \<noteq> []
     \<and> css' = process_css_urls env css u"
  by (auto simp: inline_link_def Let_def split: option.splits if_splits sum.splits)

lemma inline_link_fails:
  assumes "attr_get as ''href'' = Some ref" and "urljoin env base ref = Inr u"
    and "fetch_text_fails env u \<or> (\<exists>r. http_get env u = Inr r \<and> resp_text r = Inr [])"
  shows "inline_link env base as = Inr None"
  using assms
  by (auto simp: inline_link_def fetch_text_fails_def isl_def split: sum.splits)

text \<open>
  Claim C8. In a run without fault on a document of the parser's shape, the link
  elements of the returned document are exactly the link elements of the input that
  were not inlined, each identical to the element before inlining (same attributes,
  same children) and in the same order. A stylesheet link whose fetch fails or whose
  text is empty is not inlined; a link is inlined only when its fetch returned status
  200 and a non-empty text.
\<close>

theorem stylesheet_link_kept:
  assumes "html_parser env html = Inr soup" and "list_all parsed_shape soup"
    and "inline_body env html base dir fs = Inr ((html', imgs), fs')"
  shows "download_resources_and_update_html env html base dir fs = Inr ((html', imgs), fs')
     \<and> (\<exists>soup'. serialize env soup' = Inr html'
           \<and> find_all [''link''] soup'
               = filter (\<lambda>l. \<not> link_inlined env base l) (find_all [''link''] soup))
     \<and> (\<forall>as cs ref u. attr_get as ''href'' = Some ref \<and> urljoin env base ref = Inr u
           \<and> (fetch_text_fails env u \<or> (\<exists>r. http_get env u = Inr r \<and> resp_text r = Inr []))
           \<longrightarrow> \<not> link_inlined env base (Tag ''link'' as cs))
     \<and> (\<forall>l. link_inlined env base l \<longrightarrow>
           (\<exists>as cs ref u r css. l = Tag ''link'' as cs \<and> rel_stylesheet as
              \<and> attr_get as ''href'' = Some ref \<and> urljoin env base ref = Inr u
              \<and> http_get env u = Inr r \<and> status r = 200 \<and> resp_text r = Inr css \<and> css \<noteq> []))"
proof -
  obtain soup' where i: "inline_soup env base (path_join dir ''images'') soup fs = Inr (soup', imgs, fs')"
    and s: "serialize env soup' = Inr html'"
    using inline_body_Inr [OF assms(1,3)] by blast
  have 1: "find_all [''link''] soup'
             = filter (\<lambda>l. \<not> link_inlined env base l) (find_all [''link''] soup)"
    using inline_soup_links [OF assms(2) i] .
  have 2: "\<not> link_inlined env base (Tag ''link'' as cs)"
    if "attr_get as ''href'' = Some ref" "urljoin env base ref = Inr u"
       "fetch_text_fails env u \<or> (\<exists>r. http_get env u = Inr r \<and> resp_text r = Inr [])"
    for as cs ref u
    using inline_link_fails [OF that] by (simp add: link_inlined_def)
  have 3: "\<exists>as cs ref u r css. l = Tag ''link'' as cs \<and> rel_stylesheet as
              \<and> attr_get as ''href'' = Some ref \<and> urljoin env base ref = Inr u
              \<and> http_get env u = Inr r \<and> status r = 200 \<and> resp_text r = Inr css \<and> css \<noteq> []"
    if "link_inlined env base l" for l
  proof (cases l)
    case (Tag n as cs)
    with that obtain css' where "n = ''link''" "rel_stylesheet as"
      "inline_link env base as = Inr (Some css')"
      by (auto simp: link_inlined_def)
    with Tag inline_link_Some [of env base as css'] show ?thesis by blast
  qed (use that in \<open>simp_all add: link_inlined_def\<close>)
  have 0: "download_resources_and_update_html env html base dir fs = Inr ((html', imgs), fs')"
    using assms(3) by (simp add: download_resources_and_update_html_def)
  from 0 1 2 3 s show ?thesis by blast
qed

lemma img_step_other: "n \<noteq> ''img'' \<Longrightarrow> img_step env base d n as st = Inr (Keep as, st)"
  by (simp add: img_step_def)

lemma no_img_loop:
  "filter (is_tag [''img'']) xs = [] \<Longrightarrow> tag_loop (img_step env base d) xs st = Inr (xs, st)"
proof (induction xs)
  case Nil
  show ?case by simp
next
  case (Cons x xs)
  then show ?case
    by (cases x) (auto simp: img_step_other split: if_splits)
qed

lemma single_img_loop:
  assumes "filter (is_tag [''img'']) xs = [Tag ''img'' as cs]"
    and "process_img env base d as st = Inr (as', st'')"
    and "tag_loop (img_step env base d) xs st = Inr (ys, st')"
  shows "filter (is_tag [''img'']) ys = [Tag ''img'' as' cs] \<and> st' = st''"
  using assms
proof (induction xs arbitrary: ys)
  case Nil
  then show ?case by simp
next
  case (Cons x xs)
  show ?case
  proof (cases x)
    case (Tag n as0 cs0)
    show ?thesis
    proof (cases "n = ''img''")
      case True
      with Cons.prems(1) Tag have e: "as0 = as" "cs0 = cs" and r: "filter (is_tag [''img'']) xs = []"
        by simp_all
      have k: "img_step env base d ''img'' as st = Inr (Keep as', st'')"
        using Cons.prems(2) by (simp add: img_step_def)
      from Cons.prems(3) Tag True e k no_img_loop [OF r, of env base d st'']
      show ?thesis
        by (auto simp: r)
    next
      case False
      with Cons.prems(1) Tag have f: "filter (is_tag [''img'']) xs = [Tag ''img'' as cs]"
        by simp
      from Cons.prems(3) Tag False obtain ys' where l: "tag_loop (img_step env base d) xs st = Inr (ys', st')"
        and y: "ys = Tag n as0 cs0 # ys'"
        by (auto simp: img_step_other split: sum.splits)
      from Cons.IH [OF f Cons.prems(2) l] y False show ?thesis by simp
    qed
  next
    case (Text t)
    with Cons.prems obtain ys' where l: "tag_loop (img_step env base d) xs st = Inr (ys', st')"
      and y: "ys = Text t # ys'" and f: "filter (is_tag [''img'']) xs = [Tag ''img'' as cs]"
      by (auto split: sum.splits)
    from Cons.IH [OF f Cons.prems(2) l] y show ?thesis by simp
  next
    case (Comment t)
    with Cons.prems obtain ys' where l: "tag_loop (img_step env base d) xs st = Inr (ys', st')"
      and y: "ys = Comment t # ys'" and f: "filter (is_tag [''img'']) xs = [Tag ''img'' as cs]"
      by (auto split: sum.splits)
    from Cons.IH [OF f Cons.prems(2) l] y show ?thesis by simp
  qed
qed

lemma image_type_mime:
  "image_type env ctype u = Inr (ext, mime) \<Longrightarrow>
   mime \<in> {''image/jpeg'', ''image/png'', ''image/gif'', ''image/webp''}"
  by (auto simp: image_type_def Let_def split: if_splits sum.splits)

lemma process_img_fetched:
  assumes "py_or (attr_get as ''src'') (py_or (attr_get as ''data-src'') (attr_get as ''data-lazy-src''))
             = Some ref" and "ref \<noteq> []"
    and "urljoin env base ref = Inr u" and "http_get env u = Inr r" and "status r = 200"
    and "resp_read r = Inr content" and "image_type env (img_ctype r) u = Inr (ext, mime)"
    and "\<not> write_fails env (path_join d (''img_'' @ str_nat (next_idx st) @ ext))"
  shows "process_img env base d as st
           = Inr (attr_set ''src'' (''data:'' @ mime @ '';base64,'' @ b64encode env content) as,
                  st\<lparr>next_idx := Suc (next_idx st),
                     disk := (disk st)(path_join d (''img_'' @ str_nat (next_idx st) @ ext) \<mapsto> content),
                     downloaded_images := downloaded_images st
                        @ [(path_join d (''img_'' @ str_nat (next_idx st) @ ext), u)]\<rparr>)"
  using assms
  by (simp add: process_img_def fetch_image_def write_file_def Let_def img_ctype_def)

text \<open>
  Claim C2, amended. A document with one image element whose reference resolves, whose
  fetch returns status 200 and bytes, and whose file can be written: in a run in which
  no fault reaches the handler of the outer \<^verbatim>\<open>try\<close>, the returned document holds that
  image element with its \<^verbatim>\<open>src\<close> set to \<^verbatim>\<open>data:<mime>;base64,<payload>\<close>, the image list
  is the one pair of the file's path and the resolved URL, and the file holds the
  fetched bytes.
\<close>

theorem single_image_inlined:
  assumes "html_parser env html = Inr soup" and "list_all parsed_shape soup"
    and "find_all [''img''] soup = [Tag ''img'' as cs]"
    and "py_or (attr_get as ''src'') (py_or (attr_get as ''data-src'') (attr_get as ''data-lazy-src''))
           = Some ref" and "ref \<noteq> []"
    and "urljoin env base ref = Inr u" and "http_get env u = Inr r" and "status r = 200"
    and "resp_read r = Inr content" and "image_type env (img_ctype r) u = Inr (ext, mime)"
    and "\<not> write_fails env (path_join (path_join dir ''images'') (''img_0'' @ ext))"
    and "inline_body env html base dir fs = Inr ((html', imgs), fs')"
  shows "download_resources_and_update_html env html base dir fs = Inr ((html', imgs), fs')
     \<and> (\<exists>soup'. serialize env soup' = Inr html'
           \<and> find_all [''img''] soup'
               = [Tag ''img'' (attr_set ''src'' (''data:'' @ mime @ '';base64,'' @ b64encode env content) as) cs])
     \<and> mime \<in> {''image/jpeg'', ''image/png'', ''image/gif'', ''image/webp''}
     \<and> imgs = [(path_join (path_join dir ''images'') (''img_0'' @ ext), u)]
     \<and> fs' (path_join (path_join dir ''images'') (''img_0'' @ ext)) = Some content"
proof -
  let ?d = "path_join dir ''images''"
  let ?st0 = "\<lparr>next_idx = 0, disk = fs, downloaded_images = []\<rparr>"
  let ?p = "path_join ?d (''img_0'' @ ext)"
  let ?as' = "attr_set ''src'' (''data:'' @ mime @ '';base64,'' @ b64encode env content) as"
  obtain soup' where i: "inline_soup env base ?d soup fs = Inr (soup', imgs, fs')"
    and s: "serialize env soup' = Inr html'"
    using inline_body_Inr [OF assms(1,12)] by blast
  obtain soup1 soup2 st1 where
    a: "tag_loop (img_step env base ?d) (find_all resource_tags soup) ?st0
             = Inr (find_all resource_tags soup1, st1)"
    and b: "tag_loop (link_step env base) (find_all resource_tags soup1) ()
             = Inr (find_all resource_tags soup2, ())"
    and c: "tag_loop (script_step env base) (find_all resource_tags soup2) ()
             = Inr (find_all resource_tags soup', ())"
    and d: "imgs = downloaded_images st1" "fs' = disk st1"
    using inline_soup_loops [OF assms(2) i] by auto
  have sub: "set [''img''] \<subseteq> set resource_tags" by (simp add: resource_tags_def)
  have z: "str_nat 0 = ''0''" by (simp add: str_nat.simps)
  have p: "process_img env base ?d as ?st0
             = Inr (?as', \<lparr>next_idx = Suc 0, disk = fs(?p \<mapsto> content), downloaded_images = [(?p, u)]\<rparr>)"
    using process_img_fetched [of as ref env base u r content ext mime ?d ?st0] assms(4-11)
    by (simp add: z)
  have f0: "filter (is_tag [''img'']) (find_all resource_tags soup) = [Tag ''img'' as cs]"
    using assms(3) by (simp add: find_all_sub [OF sub])
  have 1: "filter (is_tag [''img'']) (find_all resource_tags soup1) = [Tag ''img'' ?as' cs]"
    and st1: "st1 = \<lparr>next_idx = Suc 0, disk = fs(?p \<mapsto> content), downloaded_images = [(?p, u)]\<rparr>"
    using single_img_loop [OF f0 p a] by simp_all
  have "find_all [''img''] soup' = [Tag ''img'' ?as' cs]"
    unfolding find_all_sub [OF sub]
    using 1 link_loop_imgs [OF b] script_loop_imgs [OF c] by simp
  moreover have "download_resources_and_update_html env html base dir fs = Inr ((html', imgs), fs')"
    using assms(12) by (simp add: download_resources_and_update_html_def)
  ultimately show ?thesis
    using s d st1 image_type_mime [OF assms(10)] by auto
qed

lemma tag_loop_rel:
  "tag_loop step xs st = Inr (ys, st') \<Longrightarrow> list_all2 (step_rel step) xs ys"
proof (induction step xs st arbitrary: ys st' rule: tag_loop.induct)
  case (1 step st)
  then show ?case by simp
next
  case (2 step n as cs ts st)
  from "2.prems" obtain act st1 ts' where s: "step n as st = Inr (act, st1)"
    and l: "tag_loop step ts st1 = Inr (ts', st')" and y: "ys = act_on act (Tag n as cs) # ts'"
    by (auto split: sum.splits)
  have "step_rel step (Tag n as cs) (act_on act (Tag n as cs))"
    unfolding step_rel_def using s by auto
  with "2.IH" [OF s refl l] y show ?case by simp
next
  case (3 step t ts st)
  then show ?case by (auto split: sum.splits simp: step_rel_def)
next
  case (4 step t ts st)
  then show ?case by (auto split: sum.splits simp: step_rel_def)
qed

lemma process_img_outcome:
  assumes "process_img env base d as st = Inr (as', st')"
  shows "if (\<exists>uri. img_embedded env base d as st uri)
         then (\<exists>uri. img_embedded env base d as st uri \<and> as' = attr_set ''src'' uri as)
         else as' = as"
proof (cases "py_or (attr_get as ''src'') (py_or (attr_get as ''data-src'') (attr_get as ''data-lazy-src''))")
  case None
  with assms show ?thesis by (simp add: process_img_def img_embedded_def Let_def)
next
  case (Some ref)
  show ?thesis
  proof (cases "ref = []")
    case True
    with Some assms show ?thesis by (simp add: process_img_def img_embedded_def Let_def)
  next
    case False
    with Some assms obtain u where u: "urljoin env base ref = Inr u"
      by (auto simp: process_img_def Let_def split: sum.splits)
    show ?thesis
    proof (cases "fetch_image env d (next_idx st) u (disk st)")
      case (Inl e)
      with Some False u assms show ?thesis
        by (simp add: process_img_def img_embedded_def Let_def)
    next
      case (Inr b)
      show ?thesis
      proof (cases b)
        case None
        with Inr Some False u assms show ?thesis
          by (simp add: process_img_def img_embedded_def Let_def)
      next
        case s: (Some t)
        obtain uri p fs' where t: "t = (uri, p, fs')" by (cases t)
        with s Inr Some False u assms show ?thesis
          by (auto simp: process_img_def img_embedded_def Let_def)
      qed
    qed
  qed
qed

lemma outcome_compose:
  assumes "step_rel (img_step env base d) x0 x1"
    and "step_rel (link_step env base) x1 x2"
    and "step_rel (script_step env base) x2 x3"
  shows "resource_outcome env base d x0 x3"
proof (cases x0)
  case (Tag n as cs)
  show ?thesis
  proof (cases "n = ''img''")
    case True
    from assms(1) Tag obtain st act st' where
      i: "img_step env base d n as st = Inr (act, st')" and a: "x1 = act_on act x0"
      by (auto simp: step_rel_def)
    from i True obtain as' where p: "process_img env base d as st = Inr (as', st')"
      and k: "act = Keep as'"
      by (cases "process_img env base d as st") (auto simp: img_step_def)
    from a k Tag have x1: "x1 = Tag n as' cs" by simp
    from assms(2) x1 True have x2: "x2 = x1"
      by (auto simp: step_rel_def link_step_def)
    from assms(3) x2 x1 True have x3: "x3 = x1"
      by (auto simp: step_rel_def script_step_def)
    from process_img_outcome [OF p] x3 x1 Tag True show ?thesis
      unfolding resource_outcome_def by (auto intro!: exI [of _ st] split: if_splits)
  next
    case False
    with assms(1) Tag have x1: "x1 = x0"
      by (auto simp: step_rel_def img_step_def)
    show ?thesis
    proof (cases "n = ''link'' \<and> rel_stylesheet as")
      case True
      from assms(2) x1 Tag True have
        "(inline_link env base as = Inr None \<and> x2 = x0)
         \<or> (\<exists>css. inline_link env base as = Inr (Some css) \<and> x2 = Tag ''style'' [] [Text css])"
        by (auto simp: step_rel_def link_step_def split: sum.splits option.splits)
      moreover have "x3 = x2" if "x2 = x0 \<or> (\<exists>css. x2 = Tag ''style'' [] [Text css])"
        using assms(3) that Tag True by (auto simp: step_rel_def script_step_def)
      ultimately show ?thesis
        using Tag True False unfolding resource_outcome_def by auto
    next
      case nl: False
      with assms(2) x1 Tag have x2: "x2 = x0"
        by (auto simp: step_rel_def link_step_def)
      from assms(3) x2 Tag nl False show ?thesis
        unfolding resource_outcome_def
        by (auto simp: step_rel_def script_step_def split: sum.splits option.splits)
    qed
  qed
next
  case (Text t)
  with assms show ?thesis by (simp add: step_rel_def resource_outcome_def)
next
  case (Comment t)
  with assms show ?thesis by (simp add: step_rel_def resource_outcome_def)
qed

lemma inline_soup_outcomes:
  assumes "list_all parsed_shape soup"
    and "inline_soup env base d soup fs = Inr (soup', dl, fs')"
  shows "list_all2 (resource_outcome env base d)
           (find_all resource_tags soup) (find_all resource_tags soup')"
proof -
  obtain soup1 soup2 st1 where
    a: "tag_loop (img_step env base d) (find_all resource_tags soup)
               \<lparr>next_idx = 0, disk = fs, downloaded_images = []\<rparr>
             = Inr (find_all resource_tags soup1, st1)"
    and b: "tag_loop (link_step env base) (find_all resource_tags soup1) ()
             = Inr (find_all resource_tags soup2, ())"
    and c: "tag_loop (script_step env base) (find_all resource_tags soup2) ()
             = Inr (find_all resource_tags soup', ())"
    using inline_soup_loops [OF assms] by auto
  have "list_all2 (\<lambda>x0 x2. \<exists>x1. step_rel (img_step env base d) x0 x1 \<and> step_rel (link_step env base) x1 x2)
          (find_all resource_tags soup) (find_all resource_tags soup2)"
    using tag_loop_rel [OF a] tag_loop_rel [OF b]
    by (rule list_all2_trans [rotated]) blast
  then show ?thesis
    using tag_loop_rel [OF c]
    by (rule list_all2_trans [rotated]) (blast intro: outcome_compose)
qed

lemma fetch_image_Some:
  "fetch_image env d idx u fs = Inr (Some (uri, p, fs')) \<Longrightarrow>
   \<exists>r content mime. http_get env u = Inr r \<and> status r = 200 \<and> resp_read r = Inr content
     \<and> mime \<in> {''image/jpeg'', ''image/png'', ''image/gif'', ''image/webp''}
     \<and> uri = ''data:'' @ mime @ '';base64,'' @ b64encode env content"
proof -
  assume a: "fetch_image env d idx u fs = Inr (Some (uri, p, fs'))"
  then obtain r where r: "http_get env u = Inr r" and s: "status r = 200"
    by (auto simp: fetch_image_def split: sum.splits if_splits)
  from a r s obtain content where c: "resp_read r = Inr content"
    by (auto simp: fetch_image_def split: sum.splits)
  from a r s c obtain ext mime where t: "image_type env (img_ctype r) u = Inr (ext, mime)"
    by (auto simp: fetch_image_def img_ctype_def Let_def split: sum.splits)
  from a r s c t have "uri = ''data:'' @ mime @ '';base64,'' @ b64encode env content"
    by (auto simp: fetch_image_def img_ctype_def Let_def write_file_def split: sum.splits if_splits)
  with r s c image_type_mime [OF t] show ?thesis by blast
qed

lemma img_embedded_data:
  "img_embedded env base d as st uri \<Longrightarrow>
   \<exists>ref u r content mime. urljoin env base ref = Inr u \<and> http_get env u = Inr r
     \<and> status r = 200 \<and> resp_read r = Inr content
     \<and> mime \<in> {''image/jpeg'', ''image/png'', ''image/gif'', ''image/webp''}
     \<and> uri = ''data:'' @ mime @ '';base64,'' @ b64encode env content"
  unfolding img_embedded_def using fetch_image_Some by blast

lemma inline_link_None:
  "inline_link env base as = Inr None \<Longrightarrow>
   attr_get as ''href'' = None \<or> attr_get as ''href'' = Some []
   \<or> (\<exists>ref u. attr_get as ''href'' = Some ref \<and> urljoin env base ref = Inr u
         \<and> (fetch_text_fails env u
            \<or> (\<exists>r css. http_get env u = Inr r \<and> resp_text r = Inr css
                  \<and> (css = [] \<or> process_css_urls env css u = []))))"
  by (auto simp: inline_link_def fetch_text_fails_def Let_def isl_def
           split: option.splits if_splits sum.splits)

lemma inline_script_Some:
  "inline_script env base as = Inr (Some new) \<Longrightarrow>
   \<exists>ref u r js. attr_get as ''src'' = Some ref \<and> \<not> prefix ''data:'' ref
     \<and> \<not> prefix ''javascript:'' ref \<and> urljoin env base ref = Inr u
     \<and> http_get env u = Inr r \<and> status r = 200 \<and> resp_text r = Inr js
     \<and> new = Tag ''script'' (filter (\<lambda>p. fst p \<noteq> ''src'') as) [Text js]"
  by (auto simp: inline_script_def split: option.splits if_splits sum.splits)

lemma inline_script_None:
  "inline_script env base as = Inr None \<Longrightarrow>
   attr_get as ''src'' = None
   \<or> (\<exists>ref. attr_get as ''src'' = Some ref
         \<and> (ref = [] \<or> prefix ''data:'' ref \<or> prefix ''javascript:'' ref
            \<or> (\<exists>u. urljoin env base ref = Inr u \<and> fetch_text_fails env u)))"
  by (auto simp: inline_script_def fetch_text_fails_def isl_def
           split: option.splits if_splits sum.splits)

lemma replace_url_cases:
  "(case replace_url env css_url m of Some t \<Rightarrow> t | None \<Rightarrow> group0 m) = group0 m
   \<or> (\<exists>u full r content. group1 m = Some u \<and> \<not> css_skipped u
         \<and> urljoin env css_url u = Inr full \<and> http_get env full = Inr r \<and> status r = 200
         \<and> resp_read r = Inr content
         \<and> (case replace_url env css_url m of Some t \<Rightarrow> t | None \<Rightarrow> group0 m)
             = data_url env r content)"
  by (auto simp: replace_url_def css_skipped_def data_url_def Let_def
           split: option.splits sum.splits if_splits)

text \<open>
  Claim C1, amended. In a run without fault on a document of the parser's shape, the
  \<^verbatim>\<open>img\<close>, \<^verbatim>\<open>link\<close>, \<^verbatim>\<open>script\<close> and \<^verbatim>\<open>style\<close> elements of the returned document
  correspond one to one, in document order, to those of the input, each as
  \<open>resource_outcome\<close> says: none is dropped. An embedded image carries a
  \<^verbatim>\<open>data:<mime>;base64\<close> URI of the fetched bytes. An inlined stylesheet is a \<^verbatim>\<open>style\<close>
  element with the fetched, non-empty text after \<open>process_css_urls\<close> (no data URI takes
  the place of the \<^verbatim>\<open>href\<close>); a link stays when it has no \<^verbatim>\<open>href\<close>, its fetch failed or
  the text is empty. An inlined script is a \<^verbatim>\<open>script\<close> element with the fetched text
  and the old attributes but \<^verbatim>\<open>src\<close>; a script stays when its source is empty, a
  \<^verbatim>\<open>data:\<close> or \<^verbatim>\<open>javascript:\<close> URL, or its fetch failed. In a fetched stylesheet every
  \<^verbatim>\<open>url()\<close> match keeps its text or, when it is not skipped and its fetch returned
  status 200, becomes \<open>data_url\<close>. On a fault the input text is returned unchanged.
\<close>

theorem resource_outcomes:
  assumes "html_parser env html = Inr soup" and "list_all parsed_shape soup"
  shows "(\<forall>html' imgs fs'. inline_body env html base dir fs = Inr ((html', imgs), fs') \<longrightarrow>
            download_resources_and_update_html env html base dir fs = Inr ((html', imgs), fs')
            \<and> (\<exists>soup'. serialize env soup' = Inr html'
                  \<and> list_all2 (resource_outcome env base (path_join dir ''images''))
                       (find_all resource_tags soup) (find_all resource_tags soup')))
     \<and> (\<forall>e fs'. inline_body env html base dir fs = Inl (e, fs') \<longrightarrow>
            download_resources_and_update_html env html base dir fs = Inr ((html, []), fs'))
     \<and> (\<forall>as st uri. img_embedded env base (path_join dir ''images'') as st uri \<longrightarrow>
            (\<exists>ref u r content mime. urljoin env base ref = Inr u \<and> http_get env u = Inr r
               \<and> status r = 200 \<and> resp_read r = Inr content
               \<and> mime \<in> {''image/jpeg'', ''image/png'', ''image/gif'', ''image/webp''}
               \<and> uri = ''data:'' @ mime @ '';base64,'' @ b64encode env content))
     \<and> (\<forall>as css'. inline_link env base as = Inr (Some css') \<longrightarrow>
            (\<exists>ref u r css. attr_get as ''href'' = Some ref \<and> urljoin env base ref = Inr u
               \<and> http_get env u = Inr r \<and> status r = 200 \<and> resp_text r = Inr css \<and> css \<noteq> []
               \<and> css' = process_css_urls env css u))
     \<and> (\<forall>as. inline_link env base as = Inr None \<longrightarrow>
            attr_get as ''href'' = None \<or> attr_get as ''href'' = Some []
            \<or> (\<exists>ref u. attr_get as ''href'' = Some ref \<and> urljoin env base ref = Inr u
                  \<and> (fetch_text_fails env u
                     \<or> (\<exists>r css. http_get env u = Inr r \<and> resp_text r = Inr css
                           \<and> (css = [] \<or> process_css_urls env css u = [])))))
     \<and> (\<forall>as new. inline_script env base as = Inr (Some new) \<longrightarrow>
            (\<exists>ref u r js. attr_get as ''src'' = Some ref \<and> \<not> prefix ''data:'' ref
               \<and> \<not> prefix ''javascript:'' ref \<and> urljoin env base ref = Inr u
               \<and> http_get env u = Inr r \<and> status r = 200 \<and> resp_text r = Inr js
               \<and> new = Tag ''script'' (filter (\<lambda>p. fst p \<noteq> ''src'') as) [Text js]))
     \<and> (\<forall>as. inline_script env base as = Inr None \<longrightarrow>
            attr_get as ''src'' = None
            \<or> (\<exists>ref. attr_get as ''src'' = Some ref
                  \<and> (ref = [] \<or> prefix ''data:'' ref \<or> prefix ''javascript:'' ref
                     \<or> (\<exists>u. urljoin env base ref = Inr u \<and> fetch_text_fails env u))))
     \<and> (\<forall>css css_url. process_css_urls env css css_url
            = concat (rebuild css 0
                (map (\<lambda>m. (m, case replace_url env css_url m of Some t \<Rightarrow> t | None \<Rightarrow> group0 m))
                     (finditer True css_url_regex 0 css))))
     \<and> (\<forall>css_url m.
            (case replace_url env css_url m of Some t \<Rightarrow> t | None \<Rightarrow> group0 m) = group0 m
            \<or> (\<exists>u full r content. group1 m = Some u \<and> \<not> css_skipped u
                  \<and> urljoin env css_url u = Inr full \<and> http_get env full = Inr r
                  \<and> status r = 200 \<and> resp_read r = Inr content
                  \<and> (case replace_url env css_url m of Some t \<Rightarrow> t | None \<Rightarrow> group0 m)
                      = data_url env r content))"
proof -
  have 1: "download_resources_and_update_html env html base dir fs = Inr ((html', imgs), fs')
            \<and> (\<exists>soup'. serialize env soup' = Inr html'
                  \<and> list_all2 (resource_outcome env base (path_join dir ''images''))
                       (find_all resource_tags soup) (find_all resource_tags soup'))"
    if b: "inline_body env html base dir fs = Inr ((html', imgs), fs')" for html' imgs fs'
  proof -
    obtain soup' where i: "inline_soup env base (path_join dir ''images'') soup fs = Inr (soup', imgs, fs')"
      and s: "serialize env soup' = Inr html'"
      using inline_body_Inr [OF assms(1) b] by blast
    from inline_soup_outcomes [OF assms(2) i] s b show ?thesis
      by (auto simp: download_resources_and_update_html_def)
  qed
  have 2: "download_resources_and_update_html env html base dir fs = Inr ((html, []), fs')"
    if "inline_body env html base dir fs = Inl (e, fs')" for e fs'
    using that by (simp add: download_resources_and_update_html_def)
  show ?thesis
    by (intro conjI allI impI 1 2 img_embedded_data inline_link_Some inline_link_None
        inline_script_Some inline_script_None process_css_urls_rebuild replace_url_cases)
qed

text \<open>
  Claim C1 as stated fails on two stylesheet links: the first, fetched, becomes a
  \<^verbatim>\<open>style\<close> element and no data URI; the second stays unchanged although its fetch
  succeeded (with an empty text).
\<close>

theorem resource_outcomes_counterexample:
  "(case inline_soup env_page ''https://h/'' ''p/images'' two_links_soup Map.empty of
      Inl e \<Rightarrow> None
    | Inr (soup', imgs, fs') \<Rightarrow> Some soup')
     = Some [Tag ''style'' [] [Text ''p{background:url(bg.png)}''],
             Tag ''link'' [(''rel'', ''stylesheet''), (''href'', ''empty.css'')] []]
   \<and> \<not> claimed_outcome env_page ''https://h/''
         (Tag ''link'' [(''rel'', ''stylesheet''), (''href'', ''s.css'')] [])
         (Tag ''style'' [] [Text ''p{background:url(bg.png)}''])
   \<and> \<not> claimed_outcome env_page ''https://h/''
         (Tag ''link'' [(''rel'', ''stylesheet''), (''href'', ''empty.css'')] [])
         (Tag ''link'' [(''rel'', ''stylesheet''), (''href'', ''empty.css'')] [])"
proof -
  have 1: "(case inline_soup env_page ''https://h/'' ''p/images'' two_links_soup Map.empty of
      Inl e \<Rightarrow> None
    | Inr (soup', imgs, fs') \<Rightarrow> Some soup')
     = Some [Tag ''style'' [] [Text ''p{background:url(bg.png)}''],
             Tag ''link'' [(''rel'', ''stylesheet''), (''href'', ''empty.css'')] []]"
    by code_simp
  have 2: "\<not> claimed_outcome env_page ''https://h/''
         (Tag ''link'' [(''rel'', ''stylesheet''), (''href'', ''s.css'')] [])
         (Tag ''style'' [] [Text ''p{background:url(bg.png)}''])"
    by (simp add: claimed_outcome_def)
  have 3: "\<not> claimed_outcome env_page ''https://h/''
         (Tag ''link'' [(''rel'', ''stylesheet''), (''href'', ''empty.css'')] [])
         (Tag ''link'' [(''rel'', ''stylesheet''), (''href'', ''empty.css'')] [])"
    by (auto simp: claimed_outcome_def attr_get_def env_page_def fetch_text_fails_def ok_response_def)
  from 1 2 3 show ?thesis by blast
qed

lemma page_shape: "list_all parsed_shape page_soup"
  by code_simp

lemma page_run:
  "\<exists>fs'. inline_body env_page ''page'' ''https://h/'' ''p'' Map.empty
     = Inr ((''<html><head><style>p{background:url(bg.png)}</style><link rel=stylesheet href=empty.css></link><link rel=stylesheet href=gone.css></link><script defer=>run()</script><script src=gone.js></script></head><body><img src=data:image/png;base64,UE5H alt=a></img><p>hello<img src=gone.png></img></p></body></html>'',
             [(''p/images/img_0.png'', ''https://h/a.png'')]), fs')"
proof -
  have 1: "\<not> isl (inline_body env_page ''page'' ''https://h/'' ''p'' Map.empty)"
    by code_simp
  have 2: "fst (projr (inline_body env_page ''page'' ''https://h/'' ''p'' Map.empty))
     = (''<html><head><style>p{background:url(bg.png)}</style><link rel=stylesheet href=empty.css></link><link rel=stylesheet href=gone.css></link><script defer=>run()</script><script src=gone.js></script></head><body><img src=data:image/png;base64,UE5H alt=a></img><p>hello<img src=gone.png></img></p></body></html>'',
             [(''p/images/img_0.png'', ''https://h/a.png'')])"
    by code_simp
  from 1 2 show ?thesis
    by (cases "inline_body env_page ''page'' ''https://h/'' ''p'' Map.empty") auto
qed

lemma page_parse: "html_parser env_page ''page'' = Inr page_soup"
  by (simp add: env_page_def)

lemma page_links:
  "find_all [''link''] page_soup
     = [Tag ''link'' [(''rel'', ''stylesheet''), (''href'', ''s.css'')] [],
        Tag ''link'' [(''rel'', ''stylesheet''), (''href'', ''empty.css'')] [],
        Tag ''link'' [(''rel'', ''stylesheet''), (''href'', ''gone.css'')] []]"
  by code_simp

lemma page_inline_links:
  "inline_link env_page ''https://h/'' [(''rel'', ''stylesheet''), (''href'', ''s.css'')]
     = Inr (Some ''p{background:url(bg.png)}'')"
  "inline_link env_page ''https://h/'' [(''rel'', ''stylesheet''), (''href'', ''empty.css'')] = Inr None"
  "inline_link env_page ''https://h/'' [(''rel'', ''stylesheet''), (''href'', ''gone.css'')] = Inr None"
  by code_simp+

lemma page_rels:
  "rel_stylesheet [(''rel'', ''stylesheet''), (''href'', ''s.css'')]"
  "rel_stylesheet [(''rel'', ''stylesheet''), (''href'', ''empty.css'')]"
  "rel_stylesheet [(''rel'', ''stylesheet''), (''href'', ''gone.css'')]"
  by code_simp+

text \<open>On the example page the links to the empty and to the missing stylesheet are
  kept; the first link has become a style element.\<close>

theorem stylesheet_link_kept_witness:
  "\<exists>soup'. serialize env_page soup' = Inr ''<html><head><style>p{background:url(bg.png)}</style><link rel=stylesheet href=empty.css></link><link rel=stylesheet href=gone.css></link><script defer=>run()</script><script src=gone.js></script></head><body><img src=data:image/png;base64,UE5H alt=a></img><p>hello<img src=gone.png></img></p></body></html>''
      \<and> find_all [''link''] soup'
          = [Tag ''link'' [(''rel'', ''stylesheet''), (''href'', ''empty.css'')] [],
             Tag ''link'' [(''rel'', ''stylesheet''), (''href'', ''gone.css'')] []]"
proof -
  obtain fs' where r: "inline_body env_page ''page'' ''https://h/'' ''p'' Map.empty
     = Inr ((''<html><head><style>p{background:url(bg.png)}</style><link rel=stylesheet href=empty.css></link><link rel=stylesheet href=gone.css></link><script defer=>run()</script><script src=gone.js></script></head><body><img src=data:image/png;base64,UE5H alt=a></img><p>hello<img src=gone.png></img></p></body></html>'',
             [(''p/images/img_0.png'', ''https://h/a.png'')]), fs')"
    using page_run by blast
  show ?thesis
    using stylesheet_link_kept [OF page_parse page_shape r, THEN conjunct2, THEN conjunct1]
    by (simp add: page_links link_inlined_def page_inline_links page_rels)
qed

lemma one_img_run:
  "\<exists>fs'. inline_body env_page ''one image'' ''https://h/'' ''p'' Map.empty
     = Inr ((''<html><body><img src=data:image/png;base64,UE5H></img></body></html>'',
             [(''p/images/img_0.png'', ''https://h/a.png'')]), fs')"
proof -
  have 1: "\<not> isl (inline_body env_page ''one image'' ''https://h/'' ''p'' Map.empty)"
    by code_simp
  have 2: "fst (projr (inline_body env_page ''one image'' ''https://h/'' ''p'' Map.empty))
     = (''<html><body><img src=data:image/png;base64,UE5H></img></body></html>'',
             [(''p/images/img_0.png'', ''https://h/a.png'')])"
    by code_simp
  from 1 2 show ?thesis
    by (cases "inline_body env_page ''one image'' ''https://h/'' ''p'' Map.empty") auto
qed

text \<open>The one-image example.\<close>

theorem single_image_inlined_witness:
  "\<exists>fs'. download_resources_and_update_html env_page ''one image'' ''https://h/'' ''p'' Map.empty
       = Inr ((''<html><body><img src=data:image/png;base64,UE5H></img></body></html>'',
               [(''p/images/img_0.png'', ''https://h/a.png'')]), fs')
     \<and> fs' ''p/images/img_0.png'' = Some ''PNG''
     \<and> http_get env_page ''https://h/a.png'' = Inr (ok_response ''image/png'' ''PNG'')"
proof -
  obtain fs' where r: "inline_body env_page ''one image'' ''https://h/'' ''p'' Map.empty
     = Inr ((''<html><body><img src=data:image/png;base64,UE5H></img></body></html>'',
             [(''p/images/img_0.png'', ''https://h/a.png'')]), fs')"
    using one_img_run by blast
  have 1: "html_parser env_page ''one image'' = Inr one_img_soup"
    by (simp add: env_page_def)
  have 2: "list_all parsed_shape one_img_soup"
    by code_simp
  have 3: "find_all [''img''] one_img_soup = [Tag ''img'' [(''src'', ''a.png'')] []]"
    by code_simp
  have 4: "py_or (attr_get [(''src'', ''a.png'')] ''src'')
             (py_or (attr_get [(''src'', ''a.png'')] ''data-src'')
                    (attr_get [(''src'', ''a.png'')] ''data-lazy-src'')) = Some ''a.png''"
    by code_simp
  have 5: "''a.png'' \<noteq> []" by simp
  have 6: "urljoin env_page ''https://h/'' ''a.png'' = Inr ''https://h/a.png''"
    by (simp add: env_page_def)
  have 7: "http_get env_page ''https://h/a.png'' = Inr (ok_response ''image/png'' ''PNG'')"
    by (simp add: env_page_def)
  have 8: "status (ok_response ''image/png'' ''PNG'') = 200"
    and 9: "resp_read (ok_response ''image/png'' ''PNG'') = Inr ''PNG''"
    by (simp_all add: ok_response_def)
  have 10: "image_type env_page (img_ctype (ok_response ''image/png'' ''PNG'')) ''https://h/a.png''
              = Inr (''.png'', ''image/png'')"
    by code_simp
  have 11: "\<not> write_fails env_page (path_join (path_join ''p'' ''images'') (''img_0'' @ ''.png''))"
    by (simp add: env_page_def)
  have p: "path_join (path_join ''p'' ''images'') (''img_0'' @ ''.png'') = ''p/images/img_0.png''"
    by code_simp
  show ?thesis
    using single_image_inlined [OF 1 2 3 4 5 6 7 8 9 10 11 r] 7
    by (auto simp: p)
qed

lemma page_tags:
  "find_all resource_tags page_soup
     = [Tag ''link'' [(''rel'', ''stylesheet''), (''href'', ''s.css'')] [],
        Tag ''link'' [(''rel'', ''stylesheet''), (''href'', ''empty.css'')] [],
        Tag ''link'' [(''rel'', ''stylesheet''), (''href'', ''gone.css'')] [],
        Tag ''script'' [(''src'', ''app.js''), (''defer'', [])] [],
        Tag ''script'' [(''src'', ''gone.js'')] [],
        Tag ''img'' [(''src'', ''a.png''), (''alt'', ''a'')] [],
        Tag ''img'' [(''src'', ''gone.png'')] []]"
  by code_simp

text \<open>The example page: seven elements, seven outcomes.\<close>

theorem resource_outcomes_witness:
  "\<exists>soup'. serialize env_page soup' = Inr ''<html><head><style>p{background:url(bg.png)}</style><link rel=stylesheet href=empty.css></link><link rel=stylesheet href=gone.css></link><script defer=>run()</script><script src=gone.js></script></head><body><img src=data:image/png;base64,UE5H alt=a></img><p>hello<img src=gone.png></img></p></body></html>''
      \<and> list_all2 (resource_outcome env_page ''https://h/'' ''p/images'')
            [Tag ''link'' [(''rel'', ''stylesheet''), (''href'', ''s.css'')] [],
             Tag ''link'' [(''rel'', ''stylesheet''), (''href'', ''empty.css'')] [],
             Tag ''link'' [(''rel'', ''stylesheet''), (''href'', ''gone.css'')] [],
             Tag ''script'' [(''src'', ''app.js''), (''defer'', [])] [],
             Tag ''script'' [(''src'', ''gone.js'')] [],
             Tag ''img'' [(''src'', ''a.png''), (''alt'', ''a'')] [],
             Tag ''img'' [(''src'', ''gone.png'')] []]
            (find_all resource_tags soup')"
proof -
  obtain fs' where r: "inline_body env_page ''page'' ''https://h/'' ''p'' Map.empty
     = Inr ((''<html><head><style>p{background:url(bg.png)}</style><link rel=stylesheet href=empty.css></link><link rel=stylesheet href=gone.css></link><script defer=>run()</script><script src=gone.js></script></head><body><img src=data:image/png;base64,UE5H alt=a></img><p>hello<img src=gone.png></img></p></body></html>'',
             [(''p/images/img_0.png'', ''https://h/a.png'')]), fs')"
    using page_run by blast
  have p: "path_join ''p'' ''images'' = ''p/images''" by code_simp
  show ?thesis
    using resource_outcomes [OF page_parse page_shape, of "''https://h/''" "''p''" Map.empty,
        THEN conjunct1, rule_format, OF r, THEN conjunct2]
    by (simp only: page_tags p)
qed

lemma bad_ref_run:
  "\<exists>fs'. download_resources_and_update_html env_strict ''bad reference'' ''https://h/'' ''p'' Map.empty
       = Inr ((''bad reference'', []), fs')
     \<and> fs' ''p/images/img_0.png'' = Some ''PNG''"
proof -
  let ?r = "download_resources_and_update_html env_strict ''bad reference'' ''https://h/'' ''p'' Map.empty"
  have 1: "\<not> isl ?r" by code_simp
  have 2: "fst (projr ?r) = (''bad reference'', [])" by code_simp
  have 3: "snd (projr ?r) ''p/images/img_0.png'' = Some ''PNG''" by code_simp
  from 1 2 3 show ?thesis by (cases ?r) auto
qed

lemma gone_ref_run:
  "\<exists>fs'. download_resources_and_update_html env_strict ''gone reference'' ''https://h/'' ''p'' Map.empty
       = Inr ((''<html><head><link rel=stylesheet href=gone.css></link></head><body><img src=data:image/png;base64,UE5H></img></body></html>'',
               [(''p/images/img_0.png'', ''https://h/a.png'')]), fs')
     \<and> fs' ''p/images/img_0.png'' = Some ''PNG''"
proof -
  let ?r = "download_resources_and_update_html env_strict ''gone reference'' ''https://h/'' ''p'' Map.empty"
  have 1: "\<not> isl ?r" by code_simp
  have 2: "fst (projr ?r) = (''<html><head><link rel=stylesheet href=gone.css></link></head><body><img src=data:image/png;base64,UE5H></img></body></html>'',
               [(''p/images/img_0.png'', ''https://h/a.png'')])" by code_simp
  have 3: "snd (projr ?r) ''p/images/img_0.png'' = Some ''PNG''" by code_simp
  from 1 2 3 show ?thesis by (cases ?r) auto
qed

lemma disk_full_run:
  "\<exists>fs'. download_resources_and_update_html env_disk_full ''one image'' ''https://h/'' ''p'' Map.empty
       = Inr ((''<html><body><img src=a.png></img></body></html>'', []), fs')
     \<and> fs' ''p/images/img_0.png'' = None"
proof -
  let ?r = "download_resources_and_update_html env_disk_full ''one image'' ''https://h/'' ''p'' Map.empty"
  have 1: "\<not> isl ?r" by code_simp
  have 2: "fst (projr ?r) = (''<html><body><img src=a.png></img></body></html>'', [])" by code_simp
  have 3: "snd (projr ?r) ''p/images/img_0.png'' = None" by code_simp
  from 1 2 3 show ?thesis by (cases ?r) auto
qed

text \<open>
  Claim C7 wants a failure on one resource to skip that element only, the loop going on
  with the next element. On a document with an image that can be fetched and a stylesheet
  link whose reference \<^verbatim>\<open>urljoin\<close> rejects, the function returns the input text and an
  empty image list: the image, fetched and written to the disk, is in neither. The same
  document with a link whose fetch times out is processed to its end, the image
  embedded and listed.
\<close>

theorem download_aborts_on_bad_reference:
  "html_parser env_strict ''bad reference'' = Inr bad_ref_soup
   \<and> urljoin env_strict ''https://h/'' ''http://[bad'' = Inl (Exception ''Invalid IPv6 URL'')
   \<and> (\<exists>fs'. download_resources_and_update_html env_strict ''bad reference'' ''https://h/'' ''p''
                Map.empty
              = Inr ((''bad reference'', []), fs')
            \<and> fs' ''p/images/img_0.png'' = Some ''PNG'')
   \<and> html_parser env_strict ''gone reference'' = Inr gone_ref_soup
   \<and> (\<exists>fs'. download_resources_and_update_html env_strict ''gone reference'' ''https://h/'' ''p''
                Map.empty
              = Inr ((''<html><head><link rel=stylesheet href=gone.css></link></head><body><img src=data:image/png;base64,UE5H></img></body></html>'',
                      [(''p/images/img_0.png'', ''https://h/a.png'')]), fs')
            \<and> fs' ''p/images/img_0.png'' = Some ''PNG'')"
proof -
  have 1: "html_parser env_strict ''bad reference'' = Inr bad_ref_soup"
    "urljoin env_strict ''https://h/'' ''http://[bad'' = Inl (Exception ''Invalid IPv6 URL'')"
    "html_parser env_strict ''gone reference'' = Inr gone_ref_soup"
    by (simp_all add: env_strict_def)
  from 1 bad_ref_run gone_ref_run show ?thesis by blast
qed

text \<open>
  Claim C2 as stated fails on two documents with one image element whose fetch returns
  status 200 and the bytes \<^verbatim>\<open>PNG\<close>. Where the file cannot be written, the element keeps
  its reference, the image list is empty and there is no file. Where a stylesheet link
  of the document has a reference that \<^verbatim>\<open>urljoin\<close> rejects, the input text comes back
  with an empty image list.
\<close>

theorem single_image_inlined_counterexample:
  "html_parser env_disk_full ''one image'' = Inr one_img_soup
   \<and> find_all [''img''] one_img_soup = [Tag ''img'' [(''src'', ''a.png'')] []]
   \<and> urljoin env_disk_full ''https://h/'' ''a.png'' = Inr ''https://h/a.png''
   \<and> http_get env_disk_full ''https://h/a.png''
       = Inr \<lparr>status = 200, content_type = Some ''image/png'', resp_read = Inr ''PNG'',
              resp_text = Inr ''PNG''\<rparr>
   \<and> (\<exists>fs'. download_resources_and_update_html env_disk_full ''one image'' ''https://h/'' ''p''
                Map.empty
              = Inr ((''<html><body><img src=a.png></img></body></html>'', []), fs')
            \<and> fs' ''p/images/img_0.png'' = None)
   \<and> html_parser env_strict ''bad reference'' = Inr bad_ref_soup
   \<and> find_all [''img''] bad_ref_soup = [Tag ''img'' [(''src'', ''a.png'')] []]
   \<and> urljoin env_strict ''https://h/'' ''a.png'' = Inr ''https://h/a.png''
   \<and> http_get env_strict ''https://h/a.png''
       = Inr \<lparr>status = 200, content_type = Some ''image/png'', resp_read = Inr ''PNG'',
              resp_text = Inr ''PNG''\<rparr>
   \<and> (\<exists>fs'. download_resources_and_update_html env_strict ''bad reference'' ''https://h/'' ''p''
                Map.empty
              = Inr ((''bad reference'', []), fs'))"
proof -
  have 1: "html_parser env_disk_full ''one image'' = Inr one_img_soup"
    "urljoin env_disk_full ''https://h/'' ''a.png'' = Inr ''https://h/a.png''"
    "http_get env_disk_full ''https://h/a.png''
       = Inr \<lparr>status = 200, content_type = Some ''image/png'', resp_read = Inr ''PNG'',
              resp_text = Inr ''PNG''\<rparr>"
    by (simp_all add: env_disk_full_def env_page_def ok_response_def)
  have 2: "html_parser env_strict ''bad reference'' = Inr bad_ref_soup"
    "urljoin env_strict ''https://h/'' ''a.png'' = Inr ''https://h/a.png''"
    "http_get env_strict ''https://h/a.png''
       = Inr \<lparr>status = 200, content_type = Some ''image/png'', resp_read = Inr ''PNG'',
              resp_text = Inr ''PNG''\<rparr>"
    by (simp_all add: env_strict_def env_page_def ok_response_def)
  have 3: "find_all [''img''] one_img_soup = [Tag ''img'' [(''src'', ''a.png'')] []]"
    "find_all [''img''] bad_ref_soup = [Tag ''img'' [(''src'', ''a.png'')] []]"
    by code_simp+
  from 1 2 3 disk_full_run bad_ref_run show ?thesis by blast
qed

end
